theory Spec2Isabelle
  imports Main
begin

text \<open>
  A model of \<open>index.js\<close> of wordpress-export-to-markdown: the export's items are made
  into authors, images and posts, the images are linked to the posts, and every post is
  written as a Markdown file with its frontmatter, its images requested one after the
  other. Functions keep their names; what the program changes in place is passed on as a
  value, and what it throws is a result.
\<close>

section \<open>JavaScript values held in a post's frontmatter\<close>

text \<open>
  The frontmatter of a post is a plain JavaScript object: strings, arrays of strings and
  nested objects. \<open>isEmpty\<close> and \<open>clean\<close> walk any such value, so the model is the
  datatype of plain data: the primitives, arrays, and objects as the list of their own
  enumerable properties in the order \<open>Object.keys\<close> lists them. A number is an integer
  here: the two functions only look at whether a number is falsy (\<open>0\<close>; JavaScript's
  \<open>NaN\<close> is falsy like \<open>0\<close> and is not told apart from it by either function).
\<close>

datatype jsval =
    JUndefined
  | JNull
  | JBool bool
  | JNum int
  | JStr string
  | JArr "jsval list"
  | JObj "(string \<times> jsval) list"

text \<open>\<open>!!value\<close>: the falsy values are undefined, null, false, 0 and the empty string.\<close>

fun truthy :: "jsval \<Rightarrow> bool" where
  "truthy JUndefined = False"
| "truthy JNull = False"
| "truthy (JBool b) = b"
| "truthy (JNum n) = (n \<noteq> 0)"
| "truthy (JStr s) = (s \<noteq> [])"
| "truthy (JArr xs) = True"
| "truthy (JObj kvs) = True"

text \<open>\<open>isObject\<close>: truthy, of type object, and not an array (so \<open>null\<close> is not one).\<close>

fun isObject :: "jsval \<Rightarrow> bool" where
  "isObject (JObj kvs) = True"
| "isObject v = False"

text \<open>\<open>Object.keys(value)\<close> of an object.\<close>

definition keys :: "(string \<times> jsval) list \<Rightarrow> string list" where
  "keys kvs = map fst kvs"

fun isEmpty :: "jsval \<Rightarrow> bool" where
  "isEmpty (JArr xs) = (length (filter (\<lambda>value. truthy value) xs) = 0)"
| "isEmpty (JObj kvs) = (length (keys kvs) = 0)"
| "isEmpty v = (v = JNull \<or> v = JUndefined \<or> v = JStr [])"

text \<open>
  \<open>output[key] = value\<close>: an existing property keeps its place and takes the new value,
  a new property goes last.
\<close>

fun setProp :: "(string \<times> jsval) list \<Rightarrow> string \<Rightarrow> jsval \<Rightarrow> (string \<times> jsval) list" where
  "setProp [] key v = [(key, v)]"
| "setProp ((k, w) # ps) key v =
     (if k = key then (k, v) # ps else (k, w) # setProp ps key v)"

text \<open>
  \<open>clean\<close>: an array is cleaned entry by entry and then loses its empty entries; an object
  is rebuilt by a \<open>reduce\<close> over its keys, starting from \<open>{}\<close>, that keeps a property when
  its value is not empty before and not empty after cleaning; anything else is returned
  as it is.
\<close>

function clean :: "jsval \<Rightarrow> jsval" where
  "clean (JArr xs) =
     JArr (filter (\<lambda>value. \<not> isEmpty value) (map (\<lambda>value. clean value) xs))"
| "clean (JObj kvs) =
     JObj (foldl (\<lambda>output (key, value).
       if \<not> isEmpty value then
         (let value' = clean value in
          if \<not> isEmpty value' then setProp output key value' else output)
       else output) [] kvs)"
| "clean JUndefined = JUndefined"
| "clean JNull = JNull"
| "clean (JBool b) = JBool b"
| "clean (JNum n) = JNum n"
| "clean (JStr s) = JStr s"
  by pat_completeness auto
termination
proof (relation "measure size")
  show "wf (measure (size :: jsval \<Rightarrow> nat))" by simp
next
  fix xs :: "jsval list" and x
  assume "x \<in> set xs"
  then show "(x, JArr xs) \<in> measure size"
    by (simp add: less_Suc_eq_le size_list_estimation')
next
  fix kvs :: "(string \<times> jsval) list" and a :: "(string \<times> jsval) list"
    and x :: "string \<times> jsval" and xa y
  assume "x \<in> set kvs" and "(xa, y) = x"
  then have "(xa, y) \<in> set kvs" by simp
  then have "size y \<le> size_list (size_prod (\<lambda>x. 0) size) kvs"
    by (induction kvs) auto
  then show "(y, JObj kvs) \<in> measure size"
    by (simp add: less_Suc_eq_le)
qed

text \<open>The reducer of the object case, named for the proofs.\<close>

definition keepsProp :: "(string \<times> jsval) list \<Rightarrow> string \<times> jsval \<Rightarrow> (string \<times> jsval) list" where
  "keepsProp output kv = (case kv of (key, value) \<Rightarrow>
       if \<not> isEmpty value then
         (let value' = clean value in
          if \<not> isEmpty value' then setProp output key value' else output)
       else output)"

text \<open>A value that \<open>clean\<close> keeps and leaves as it is.\<close>

definition settled :: "jsval \<Rightarrow> bool" where
  "settled v = (\<not> isEmpty v \<and> clean v = v)"


section \<open>Collaborators, configuration and entities\<close>

text \<open>
  The one exception of the model: the TypeError of reading a property of undefined or
  calling what is no function (in \<open>getAuthorName\<close> and in the linker) or of an invalid URL
  (in \<open>addContentImages\<close>).
\<close>

datatype error = TypeError

text \<open>
  The libraries the program calls are not part of it; the functions that use them take
  them as parameters, one field per call as the program makes it:
  \<open>path.join\<close>; luxon's \<open>DateTime.fromISO(date).toFormat(format)\<close> and
  \<open>DateTime.fromRFC2822(pubDate, {zone: 'utc'}).toISODate()\<close> (\<open>None\<close> is \<open>null\<close>);
  \<open>YAML.stringify\<close>; the turndown service's \<open>turndown\<close>; the string methods \<open>trim\<close> and
  \<open>toLowerCase\<close>; \<open>new URL(src, base).href\<close>, which may throw; the successive matches (their
  first group) of the \<open>img\<close> pattern of \<open>addContentImages\<close> in a text; and the regular
  expression rewrites of \<open>getPostContent\<close> other than its first one.
\<close>

record libs =
  path_join :: "string list \<Rightarrow> string"
  toFormat :: "string option \<Rightarrow> string \<Rightarrow> string"
  toISODate :: "string \<Rightarrow> string option"
  stringify :: "jsval \<Rightarrow> string"
  turndown :: "string \<Rightarrow> string"
  trim :: "string \<Rightarrow> string"
  toLowerCase :: "string \<Rightarrow> string"
  resolveUrl :: "string \<Rightarrow> string \<Rightarrow> error + string"
  imgSrcMatches :: "string \<Rightarrow> string list"
  localizeImgSrc :: "string \<Rightarrow> string"
  markIframes :: "string \<Rightarrow> string"
  tidyListItems :: "string \<Rightarrow> string"
  unmarkIframes :: "string \<Rightarrow> string"

text \<open>
  The parsed command line; \<open>output_arg\<close> and \<open>filter_arg\<close> are its \<open>output\<close> and
  \<open>filter\<close>, and \<open>filter\<close> is undefined unless given.
\<close>

record argv =
  output_arg :: string
  filter_arg :: "string option"
  folders :: string
  prefixdate :: bool
  namedfiles :: bool
  saveimages :: bool
  addcontentimages :: bool

text \<open>
  An \<open>item\<close> of the parsed export. The parser gives every element as an array and the
  program reads entry \<open>[0]\<close>; a field here is that entry. \<open>encoded\<close> has the body first and
  the excerpt second, when there is one; \<open>category\<close> and \<open>postmeta\<close> are undefined (\<open>None\<close>)
  on an item without such elements. A category is its \<open>domain\<close> attribute and its text, a
  postmeta its \<open>meta_key\<close> and \<open>meta_value\<close>.
\<close>

record item =
  post_type :: string
  post_id :: string
  post_name :: string
  post_parent :: string
  attachment_url :: string
  link :: string
  item_status :: string
  item_title :: string
  creator :: string
  pubDate :: string
  encoded_body :: string
  encoded_excerpt :: "string option"
  category :: "(string \<times> string) list option"
  postmeta :: "(string \<times> string) list option"

text \<open>An \<open>author\<close> element of the channel, and the author record made of it.\<close>

record channel_author =
  author_login :: string
  author_display_name :: string

record author =
  author_id :: string
  name :: string

text \<open>
  The id of an image is the attachment's \<open>post_id\<close>, a string, or the number \<open>-1\<close> that
  \<open>addContentImages\<close> gives to an image found in a post's body.
\<close>

datatype js_id = IdStr string | IdNum int

record image =
  image_id :: js_id
  postId :: string
  url :: string

text \<open>
  \<open>meta.imageUrls\<close> is undefined (\<open>None\<close>) until the first image is linked;
  \<open>thumbnailImageId\<close> and \<open>featureImageId\<close> are a \<open>meta_value\<close> or undefined.
  \<open>frontmatter.images\<close> is an object, \<open>{}\<close> at first; \<open>frontmatter.date\<close> is a string or
  \<open>null\<close>.
\<close>

record post_meta =
  meta_id :: string
  slug :: string
  path :: string
  status :: string
  thumbnailImageId :: "string option"
  featureImageId :: "string option"
  imageUrls :: "string list option"

record post_frontmatter =
  fm_slug :: string
  fm_title :: string
  fm_summary :: string
  fm_author :: string
  fm_date :: "string option"
  fm_images :: "(string \<times> jsval) list"
  fm_categories :: "string list"
  fm_tags :: "string list"
  fm_meta :: "(string \<times> jsval) list"

record post =
  meta :: post_meta
  frontmatter :: post_frontmatter
  content :: string

section \<open>Utilities\<close>

definition getItemsOfType :: "item list \<Rightarrow> string \<Rightarrow> item list" where
  "getItemsOfType data type = filter (\<lambda>item. post_type item = type) data"

text \<open>\<open>s.split(sep)\<close> for a one-character separator: never an empty array.\<close>

fun split_str :: "char \<Rightarrow> string \<Rightarrow> string list" where
  "split_str sep [] = [[]]"
| "split_str sep (c # cs) =
     (if c = sep then [] # split_str sep cs
      else (case split_str sep cs of [] \<Rightarrow> [[c]] | w # ws \<Rightarrow> (c # w) # ws))"

text \<open>
  \<open>url.split('/').slice(-1)[0]\<close>: the last entry of the array that \<open>split\<close> gives, which
  is never empty (\<open>split_str_not_Nil\<close> below).
\<close>

definition getFilenameFromUrl :: "string \<Rightarrow> string" where
  "getFilenameFromUrl u = last (split_str (CHR ''/'') u)"

text \<open>The last \<open>/\<close>-separated segment of a string, stated directly.\<close>

definition lastSegment :: "string \<Rightarrow> string" where
  "lastSegment u = rev (takeWhile (\<lambda>c. c \<noteq> CHR ''/'') (rev u))"

section \<open>Input: images, authors, posts\<close>

text \<open>
  \<open>/\.(gif|jpg|jpeg|png)$/i\<close>: the text ends with a dot and one of the four extensions,
  letters compared without case.
\<close>

definition lowerAscii :: "char \<Rightarrow> char" where
  "lowerAscii c =
     (if 65 \<le> (of_char c :: nat) \<and> (of_char c :: nat) \<le> 90
      then char_of ((of_char c :: nat) + 32) else c)"

definition endsWithCI :: "string \<Rightarrow> string \<Rightarrow> bool" where
  "endsWithCI suffix s =
     (length suffix \<le> length s \<and>
      map lowerAscii (drop (length s - length suffix) s) = suffix)"

definition isImageUrl :: "string \<Rightarrow> bool" where
  "isImageUrl u = list_ex (\<lambda>ext. endsWithCI ext u) [''.gif'', ''.jpg'', ''.jpeg'', ''.png'']"

text \<open>
  \<open>addContentImages\<close>: for every post, every matched image source is resolved against the
  post's link and pushed, with id \<open>-1\<close>, unless an image with the same \<open>postId\<close> and \<open>url\<close>
  is there already.
\<close>

fun addMatches :: "libs \<Rightarrow> string \<Rightarrow> string \<Rightarrow> string list \<Rightarrow> image list \<Rightarrow> error + image list" where
  "addMatches L pid postLink [] images = Inr images"
| "addMatches L pid postLink (m # ms) images =
     (case resolveUrl L m postLink of
        Inl e \<Rightarrow> Inl e
      | Inr u \<Rightarrow>
          (let exists = list_ex (\<lambda>image. postId image = pid \<and> url image = u) images
           in if \<not> exists
              then addMatches L pid postLink ms
                     (images @ [\<lparr>image_id = IdNum (- 1), postId = pid, url = u\<rparr>])
              else addMatches L pid postLink ms images))"

fun addContentImagesLoop :: "libs \<Rightarrow> item list \<Rightarrow> image list \<Rightarrow> error + image list" where
  "addContentImagesLoop L [] images = Inr images"
| "addContentImagesLoop L (p # ps) images =
     (case addMatches L (post_id p) (link p) (imgSrcMatches L (encoded_body p)) images of
        Inl e \<Rightarrow> Inl e
      | Inr images' \<Rightarrow> addContentImagesLoop L ps images')"

definition addContentImages :: "libs \<Rightarrow> item list \<Rightarrow> image list \<Rightarrow> error + image list" where
  "addContentImages L data images = addContentImagesLoop L (getItemsOfType data ''post'') images"

definition collectImages :: "libs \<Rightarrow> argv \<Rightarrow> item list \<Rightarrow> error + image list" where
  "collectImages L args data =
     (let images =
        map (\<lambda>attachment. \<lparr>image_id = IdStr (post_id attachment),
                            postId = post_parent attachment,
                            url = attachment_url attachment\<rparr>)
          (filter (\<lambda>attachment. isImageUrl (attachment_url attachment))
             (getItemsOfType data ''attachment''))
      in if addcontentimages args then addContentImages L data images else Inr images)"

definition getPostId :: "item \<Rightarrow> string" where
  "getPostId p = post_id p"

text \<open>\<open>post.post_name[0] || post.post_id[0]\<close>: the empty string is the falsy string.\<close>

definition getPostSlug :: "item \<Rightarrow> string" where
  "getPostSlug p = (if post_name p \<noteq> [] then post_name p else post_id p)"

text \<open>
  \<open>getPostPath\<close>: the first \<open>http://host\<close> or \<open>https://host\<close> of the link is removed, then one
  slash at the start and one at the end.
\<close>

definition startsWith :: "string \<Rightarrow> string \<Rightarrow> bool" where
  "startsWith pre s = (take (length pre) s = pre)"

definition matchOrigin :: "string \<Rightarrow> string option" where
  "matchOrigin s =
     (let after = (\<lambda>r. if takeWhile (\<lambda>c. c \<noteq> CHR ''/'') r = [] then None
                        else Some (dropWhile (\<lambda>c. c \<noteq> CHR ''/'') r))
      in if startsWith ''https://'' s then after (drop 8 s)
         else if startsWith ''http://'' s then after (drop 7 s)
         else None)"

fun removeOrigin :: "string \<Rightarrow> string" where
  "removeOrigin [] = []"
| "removeOrigin (c # cs) =
     (case matchOrigin (c # cs) of Some rest \<Rightarrow> rest | None \<Rightarrow> c # removeOrigin cs)"

definition stripSlashes :: "string \<Rightarrow> string" where
  "stripSlashes s =
     (let s1 = (if startsWith ''/'' s then drop 1 s else s)
      in if s1 \<noteq> [] \<and> last s1 = CHR ''/'' then butlast s1 else s1)"

definition getPostPath :: "item \<Rightarrow> string" where
  "getPostPath p = stripSlashes (removeOrigin (link p))"

definition getPostDate :: "libs \<Rightarrow> item \<Rightarrow> string option" where
  "getPostDate L p = toISODate L (pubDate p)"

definition getPostStatus :: "item \<Rightarrow> string" where
  "getPostStatus p = item_status p"

definition getPostTitle :: "libs \<Rightarrow> item \<Rightarrow> string" where
  "getPostTitle L p = trim L (item_title p)"

definition getPostExcerpt :: "libs \<Rightarrow> item \<Rightarrow> string" where
  "getPostExcerpt L p =
     trim L (case encoded_excerpt p of None \<Rightarrow> [] | Some e \<Rightarrow> e)"

text \<open>
  \<open>authors.find(item => item.id === id).name\<close>: \<open>find\<close> gives undefined when no author has
  the id, and reading \<open>name\<close> of undefined throws a TypeError.
\<close>

definition getAuthorName :: "author list \<Rightarrow> string \<Rightarrow> error + string" where
  "getAuthorName authors ident =
     (case List.find (\<lambda>item. author_id item = ident) authors of
        None \<Rightarrow> Inl TypeError
      | Some item \<Rightarrow> Inr (name item))"

definition getPostAuthor :: "item \<Rightarrow> string" where
  "getPostAuthor p = creator p"

definition getCategories :: "libs \<Rightarrow> item \<Rightarrow> string list" where
  "getCategories L p =
     foldl (\<lambda>output (domain, text).
              if domain = ''category'' then output @ [trim L (toLowerCase L text)] else output)
       [] (case category p of None \<Rightarrow> [] | Some cs \<Rightarrow> cs)"

definition getTags :: "libs \<Rightarrow> item \<Rightarrow> string list" where
  "getTags L p =
     foldl (\<lambda>output (domain, text).
              if domain = ''post_tag'' then output @ [trim L (toLowerCase L text)] else output)
       [] (case category p of None \<Rightarrow> [] | Some cs \<Rightarrow> cs)"

text \<open>
  \<open>getMeta\<close> keeps the postmeta whose key, less one leading underscore, is in the table
  \<open>metaKeys\<close> and whose value is not empty. The table of the program is empty, so nothing is
  kept (the names every object inherits are not the meta keys of an export).
\<close>

definition metaKeys :: "string list" where
  "metaKeys = []"

definition getMeta :: "item \<Rightarrow> (string \<times> jsval) list" where
  "getMeta p =
     foldl (\<lambda>output (meta_key, meta_value).
              (let key = (if startsWith ''_'' meta_key then drop 1 meta_key else meta_key)
               in if key \<in> set metaKeys
                  then (if meta_value \<noteq> [] then setProp output key (JStr meta_value) else output)
                  else output))
       [] (case postmeta p of None \<Rightarrow> [] | Some ms \<Rightarrow> ms)"

text \<open>
  \<open>postmeta.find(...)\<close> and \<open>postmeta && postmeta.meta_value[0]\<close>: the value of the first
  postmeta with the key, undefined when the item has no postmeta or none with the key.
\<close>

definition getPostThumbnailImage :: "item \<Rightarrow> string option" where
  "getPostThumbnailImage p =
     (case postmeta p of
        None \<Rightarrow> None
      | Some ms \<Rightarrow>
          (case List.find (\<lambda>pm. fst pm = ''_thumbnail_id'') ms of
             None \<Rightarrow> None
           | Some pm \<Rightarrow> Some (snd pm)))"

definition getPostFeatureImage :: "item \<Rightarrow> string option" where
  "getPostFeatureImage p =
     (case postmeta p of
        None \<Rightarrow> None
      | Some ms \<Rightarrow>
          (case List.find (\<lambda>pm. fst pm = ''post_medium_thumbnail_id'') ms of
             None \<Rightarrow> None
           | Some pm \<Rightarrow> Some (snd pm)))"

section \<open>Markup conversion\<close>

text \<open>
  The first rewrite of \<open>getPostContent\<close>, \<open>content.replace(/(\r?\n){2}/g, '\n<div></div>\n')\<close>:
  the text is scanned from the left; where two line breaks (each a line feed, with or
  without a carriage return before it) follow one another they are replaced by the
  empty \<open>div\<close> between two line feeds and the scan goes on after them; any other character
  is kept.
\<close>

definition lineBreak :: "string \<Rightarrow> string option" where
  "lineBreak s =
     (if startsWith [CHR 0x0D, CHR 0x0A] s then Some (drop 2 s)
      else if startsWith [CHR 0x0A] s then Some (drop 1 s)
      else None)"

definition doubleBreak :: "string \<Rightarrow> string option" where
  "doubleBreak s = (case lineBreak s of None \<Rightarrow> None | Some r \<Rightarrow> lineBreak r)"

definition separator :: string where
  "separator = [CHR 0x0A] @ ''<div></div>'' @ [CHR 0x0A]"

function replaceDoubleBreaks :: "string \<Rightarrow> string" where
  "replaceDoubleBreaks [] = []"
| "replaceDoubleBreaks (c # cs) =
     (case doubleBreak (c # cs) of
        Some rest \<Rightarrow> separator @ replaceDoubleBreaks rest
      | None \<Rightarrow> c # replaceDoubleBreaks cs)"
  by pat_completeness auto
termination
proof (relation "measure length")
  show "wf (measure (length :: string \<Rightarrow> nat))" by simp
next
  fix c :: char and cs rest :: string
  assume "doubleBreak (c # cs) = Some rest"
  then obtain r where r: "lineBreak (c # cs) = Some r" and rest: "lineBreak r = Some rest"
    by (auto simp: doubleBreak_def split: option.splits)
  have shorter: "length t < length u" if "lineBreak u = Some t" for t u
    using that by (cases u) (auto simp: lineBreak_def startsWith_def split: if_splits)
  have "length rest < length r" using rest by (rule shorter)
  also have "length r < length (c # cs)" using r by (rule shorter)
  finally show "(rest, c # cs) \<in> measure length" by simp
next
  fix c :: char and cs :: string
  show "(cs, c # cs) \<in> measure length" by simp
qed

definition getPostContent :: "libs \<Rightarrow> argv \<Rightarrow> item \<Rightarrow> string" where
  "getPostContent L args p =
     (let content = trim L (encoded_body p);
          content = replaceDoubleBreaks content;
          content = (if addcontentimages args then localizeImgSrc L content else content);
          content = markIframes L content;
          content = turndown L content;
          content = tidyListItems L content;
          content = unmarkIframes L content
      in content)"

section \<open>Collecting the posts\<close>

text \<open>
  An exception thrown while a post is built leaves \<open>map\<close>, and \<open>collectPosts\<close> with it: the
  posts are built in order and the first error is the result.
\<close>

fun mapPosts :: "('a \<Rightarrow> error + 'b) \<Rightarrow> 'a list \<Rightarrow> error + 'b list" where
  "mapPosts f [] = Inr []"
| "mapPosts f (x # xs) =
     (case f x of
        Inl e \<Rightarrow> Inl e
      | Inr y \<Rightarrow> (case mapPosts f xs of Inl e \<Rightarrow> Inl e | Inr ys \<Rightarrow> Inr (y # ys)))"

text \<open>\<open>s.indexOf(t) > -1\<close>: \<open>t\<close> occurs in \<open>s\<close>.\<close>

fun includes_str :: "string \<Rightarrow> string \<Rightarrow> bool" where
  "includes_str [] t = (t = [])"
| "includes_str (c # cs) t = (startsWith t (c # cs) \<or> includes_str cs t)"

definition passesFilter :: "libs \<Rightarrow> argv \<Rightarrow> item \<Rightarrow> bool" where
  "passesFilter L args p =
     (case filter_arg args of
        None \<Rightarrow> True
      | Some f \<Rightarrow>
          (if f \<noteq> [] then includes_str (toLowerCase L (getPostTitle L p)) (toLowerCase L f)
           else True))"

definition collectPost :: "libs \<Rightarrow> argv \<Rightarrow> author list \<Rightarrow> item \<Rightarrow> error + post" where
  "collectPost L args authors p =
     (let title = getPostTitle L p
      in case getAuthorName authors (getPostAuthor p) of
           Inl e \<Rightarrow> Inl e
         | Inr authorName \<Rightarrow>
             Inr \<lparr>meta = \<lparr>meta_id = getPostId p,
                          slug = getPostSlug p,
                          path = getPostPath p,
                          status = getPostStatus p,
                          thumbnailImageId = getPostThumbnailImage p,
                          featureImageId = getPostFeatureImage p,
                          imageUrls = None\<rparr>,
                  frontmatter = \<lparr>fm_slug = getPostSlug p,
                                 fm_title = title,
                                 fm_summary = getPostExcerpt L p,
                                 fm_author = authorName,
                                 fm_date = getPostDate L p,
                                 fm_images = [],
                                 fm_categories = getCategories L p,
                                 fm_tags = getTags L p,
                                 fm_meta = getMeta p\<rparr>,
                  content = getPostContent L args p\<rparr>)"

definition collectAuthors :: "channel_author list \<Rightarrow> author list" where
  "collectAuthors channel_authors =
     map (\<lambda>item. \<lparr>author_id = author_login item, name = author_display_name item\<rparr>)
       channel_authors"

definition collectPosts :: "libs \<Rightarrow> argv \<Rightarrow> item list \<Rightarrow> author list \<Rightarrow> error + post list" where
  "collectPosts L args data authors =
     mapPosts (collectPost L args authors)
       (filter (\<lambda>p. passesFilter L args p) (getItemsOfType data ''post''))"

section \<open>Linking images to posts\<close>

text \<open>
  \<open>o.meta.thumbnailImageId === image.id\<close>: strict equality of a string or undefined with a
  string or a number holds only between equal strings.
\<close>

fun idEq :: "string option \<Rightarrow> js_id \<Rightarrow> bool" where
  "idEq (Some s) (IdStr t) = (s = t)"
| "idEq (Some s) (IdNum n) = False"
| "idEq None i = False"

text \<open>
  The posts are objects that \<open>posts\<close> and the lookup table both refer to and that the
  linker changes in place: a post is named by its index in \<open>posts\<close>, and changing a post
  is replacing the entry at its index.

  The lookup table is a plain object, \<open>{}\<close> at first, so it answers for more names than
  were stored in it. \<open>lookup[id] = post\<close> stores the post under the id as an own property,
  except for the id \<open>__proto__\<close>, whose setter makes the post the prototype of the table.
  \<open>lookup[key]\<close> answers with the post stored under the key; failing that, when a post is
  the prototype, with that post's \<open>meta\<close>, \<open>frontmatter\<close> or \<open>content\<close> for these three
  keys and with the post itself for \<open>__proto__\<close>; failing that, with the function or object
  that every object inherits under the key from \<open>Object.prototype\<close>; and with undefined
  otherwise.
\<close>

definition objectPrototypeNames :: "string list" where
  "objectPrototypeNames =
     [''constructor'', ''__defineGetter__'', ''__defineSetter__'', ''hasOwnProperty'',
      ''__lookupGetter__'', ''__lookupSetter__'', ''isPrototypeOf'', ''propertyIsEnumerable'',
      ''toString'', ''valueOf'', ''__proto__'', ''toLocaleString'']"

record table =
  own :: "string \<rightharpoonup> nat"
  proto :: "nat option"

datatype answer =
    APost nat
  | AMeta nat
  | AFrontmatter nat
  | AContent nat
  | AnInherited
  | AnUndefined

definition setEntry :: "table \<Rightarrow> string \<Rightarrow> nat \<Rightarrow> table" where
  "setEntry t key i =
     (if key = ''__proto__'' then t\<lparr>proto := Some i\<rparr> else t\<lparr>own := (own t)(key \<mapsto> i)\<rparr>)"

definition getEntry :: "table \<Rightarrow> string \<Rightarrow> answer" where
  "getEntry t key =
     (case own t key of
        Some i \<Rightarrow> APost i
      | None \<Rightarrow>
          (case proto t of
             Some p \<Rightarrow>
               (if key = ''meta'' then AMeta p
                else if key = ''frontmatter'' then AFrontmatter p
                else if key = ''content'' then AContent p
                else if key = ''__proto__'' then APost p
                else if key \<in> set objectPrototypeNames then AnInherited
                else AnUndefined)
           | None \<Rightarrow>
               (if key \<in> set objectPrototypeNames then AnInherited else AnUndefined)))"

definition postsLookup :: "post list \<Rightarrow> table" where
  "postsLookup posts =
     foldl (\<lambda>lookup i. setEntry lookup (meta_id (meta (posts ! i))) i)
       \<lparr>own = Map.empty, proto = None\<rparr> [0..<length posts]"

text \<open>
  \<open>if (post)\<close>: a post, another object and a function are truthy, a post's content is
  truthy unless it is the empty string, undefined is not.
\<close>

definition answerTruthy :: "post list \<Rightarrow> answer \<Rightarrow> bool" where
  "answerTruthy posts a =
     (case a of
        AnUndefined \<Rightarrow> False
      | AContent i \<Rightarrow> content (posts ! i) \<noteq> []
      | _ \<Rightarrow> True)"

text \<open>\<open>posts.filter(o => o.meta.thumbnailImageId === image.id)[0]\<close>\<close>

definition findByThumbnail :: "post list \<Rightarrow> image \<Rightarrow> nat option" where
  "findByThumbnail posts img =
     (case filter (\<lambda>i. idEq (thumbnailImageId (meta (posts ! i))) (image_id img))
             [0..<length posts] of
        [] \<Rightarrow> None
      | i # _ \<Rightarrow> Some i)"

text \<open>What the linker does to the post it found.\<close>

definition linkImage :: "image \<Rightarrow> post \<Rightarrow> post" where
  "linkImage img p =
     (let urls = (case imageUrls (meta p) of None \<Rightarrow> [] | Some us \<Rightarrow> us);
          p = p\<lparr>meta := (meta p)\<lparr>imageUrls := Some (urls @ [url img])\<rparr>\<rparr>;
          p = (if idEq (thumbnailImageId (meta p)) (image_id img)
               then p\<lparr>frontmatter := (frontmatter p)\<lparr>fm_images :=
                      setProp (fm_images (frontmatter p)) ''thumbnail''
                        (JStr (''./images/'' @ getFilenameFromUrl (url img)))\<rparr>\<rparr>
               else p);
          p = (if idEq (featureImageId (meta p)) (image_id img)
               then p\<lparr>frontmatter := (frontmatter p)\<lparr>fm_images :=
                      setProp (fm_images (frontmatter p)) ''feature''
                        (JStr (''./images/'' @ getFilenameFromUrl (url img)))\<rparr>\<rparr>
               else p)
      in p)"

text \<open>
  The same statements run on a frontmatter, which is what the table answers for the key
  \<open>frontmatter\<close> when a post is its prototype: \<open>post.meta\<close> is then the frontmatter's own
  \<open>meta\<close> object. Its \<open>imageUrls\<close> becomes the array it was, or \<open>[]\<close> when it was missing or
  falsy, with the URL pushed; \<open>push\<close> on a truthy value that is not an array throws. When
  the image's id strictly equals that object's \<open>thumbnailImageId\<close> or \<open>featureImageId\<close>,
  reading \<open>images\<close> of the undefined \<open>post.frontmatter\<close> throws.
\<close>

fun valEq :: "jsval option \<Rightarrow> js_id \<Rightarrow> bool" where
  "valEq (Some (JStr s)) (IdStr t) = (s = t)"
| "valEq (Some (JNum n)) (IdNum m) = (n = m)"
| "valEq v i = False"

definition linkFrontmatter :: "image \<Rightarrow> post_frontmatter \<Rightarrow> error + post_frontmatter" where
  "linkFrontmatter img fm =
     (let urls = (case map_of (fm_meta fm) ''imageUrls'' of
                    None \<Rightarrow> JArr []
                  | Some v \<Rightarrow> (if truthy v then v else JArr []))
      in case urls of
           JArr us \<Rightarrow>
             (let m = setProp (fm_meta fm) ''imageUrls'' (JArr (us @ [JStr (url img)]))
              in if valEq (map_of m ''thumbnailImageId'') (image_id img) then Inl TypeError
                 else if valEq (map_of m ''featureImageId'') (image_id img) then Inl TypeError
                 else Inr (fm\<lparr>fm_meta := m\<rparr>))
         | _ \<Rightarrow> Inl TypeError)"

text \<open>
  The body of \<open>images.forEach\<close>. What the table answers is taken for a post: reading
  \<open>imageUrls\<close> of its \<open>meta\<close> throws when the answer has no \<open>meta\<close>, as a post's \<open>meta\<close> and
  \<open>content\<close> and the inherited functions and objects have none.
\<close>

definition mergeImage :: "table \<Rightarrow> post list \<Rightarrow> image \<Rightarrow> error + post list" where
  "mergeImage lookup posts img =
     (let post = (case findByThumbnail posts img of
                    Some i \<Rightarrow> APost i
                  | None \<Rightarrow> getEntry lookup (postId img))
      in if answerTruthy posts post then
           (case post of
              APost i \<Rightarrow> Inr (posts[i := linkImage img (posts ! i)])
            | AFrontmatter i \<Rightarrow>
                (case linkFrontmatter img (frontmatter (posts ! i)) of
                   Inl e \<Rightarrow> Inl e
                 | Inr fm \<Rightarrow> Inr (posts[i := (posts ! i)\<lparr>frontmatter := fm\<rparr>]))
            | _ \<Rightarrow> Inl TypeError)
         else Inr posts)"

text \<open>\<open>images.forEach\<close>: an exception ends the loop and leaves the linker.\<close>

fun mergeImages :: "table \<Rightarrow> image list \<Rightarrow> post list \<Rightarrow> error + post list" where
  "mergeImages lookup [] posts = Inr posts"
| "mergeImages lookup (img # images) posts =
     (case mergeImage lookup posts img of
        Inl e \<Rightarrow> Inl e
      | Inr posts' \<Rightarrow> mergeImages lookup images posts')"

definition mergeImagesIntoPosts :: "image list \<Rightarrow> post list \<Rightarrow> error + post list" where
  "mergeImagesIntoPosts images posts = mergeImages (postsLookup posts) images posts"

section \<open>Output\<close>

definition getPostDir :: "libs \<Rightarrow> argv \<Rightarrow> post \<Rightarrow> string" where
  "getPostDir L args p =
     (let dir = output_arg args;
          dt = fm_date (frontmatter p)
      in if folders args = ''year'' then
           path_join L [dir, toFormat L dt ''yyyy'']
         else if folders args = ''yearmonth'' then
           path_join L [dir, toFormat L dt ''yyyy'', toFormat L dt ''LL'']
         else if folders args = ''path'' then
           (if status (meta p) = ''draft''
            then path_join L [dir, ''drafts'', slug (meta p)]
            else path_join L [dir, path (meta p)])
         else if folders args = ''post'' then
           (let folder = slug (meta p);
                folder = (if prefixdate args
                          then toFormat L dt ''yyyy-LL-dd'' @ ''-'' @ folder else folder)
            in path_join L [dir, folder])
         else dir)"

text \<open>\<open>/path|post/.test(s)\<close>: one of the two words occurs in \<open>s\<close>.\<close>

definition test_path_post :: "string \<Rightarrow> bool" where
  "test_path_post s = (includes_str s ''path'' \<or> includes_str s ''post'')"

definition getPostFilename :: "libs \<Rightarrow> argv \<Rightarrow> post \<Rightarrow> string" where
  "getPostFilename L args p =
     (let filename = slug (meta p) @ ''.md''
      in if test_path_post (folders args) then
           (if namedfiles args then filename else ''index.md'')
         else if prefixdate args then
           toFormat L (fm_date (frontmatter p)) ''yyyy-LL-dd'' @ ''-'' @ filename
         else filename)"

text \<open>
  What the writer asks of the file system and the network, in the order it asks:
  \<open>createDir\<close>, \<open>fs.writeFile\<close> of a path and its data, and \<open>writeImageFile\<close>, which opens
  a write stream on the image's path and sets a timer of \<open>delay\<close> for the request of the
  image's URL.
\<close>

datatype effect =
    CreateDir string
  | WriteFile string string
  | WriteImageFile string string nat

text \<open>The frontmatter as the object it is, keys in the order \<open>collectPosts\<close> writes them.\<close>

definition frontmatterObject :: "post_frontmatter \<Rightarrow> jsval" where
  "frontmatterObject fm =
     JObj [(''slug'', JStr (fm_slug fm)),
           (''title'', JStr (fm_title fm)),
           (''summary'', JStr (fm_summary fm)),
           (''author'', JStr (fm_author fm)),
           (''date'', (case fm_date fm of None \<Rightarrow> JNull | Some d \<Rightarrow> JStr d)),
           (''images'', JObj (fm_images fm)),
           (''categories'', JArr (map JStr (fm_categories fm))),
           (''tags'', JArr (map JStr (fm_tags fm))),
           (''meta'', JObj (fm_meta fm))]"

definition writeMarkdownFile :: "libs \<Rightarrow> argv \<Rightarrow> post \<Rightarrow> string \<Rightarrow> effect" where
  "writeMarkdownFile L args p postDir =
     (let fm = clean (frontmatterObject (frontmatter p));
          data = ''---'' @ [CHR 0x0A] @ stringify L fm @ ''---'' @ [CHR 0x0A, CHR 0x0A]
                   @ content p @ [CHR 0x0A];
          postPath = path_join L [postDir, getPostFilename L args p]
      in WriteFile postPath data)"

definition writeImageFile :: "libs \<Rightarrow> string \<Rightarrow> string \<Rightarrow> nat \<Rightarrow> effect" where
  "writeImageFile L imageUrl imageDir delay =
     (let imagePath = path_join L [imageDir, getFilenameFromUrl imageUrl]
      in WriteImageFile imageUrl imagePath delay)"

text \<open>
  \<open>writeFiles\<close>: the state of the two loops is the delay counter and the effects so far.
  The inner loop runs over the image URLs of one post.
\<close>

fun writeImages :: "libs \<Rightarrow> string \<Rightarrow> string list \<Rightarrow> nat \<times> effect list \<Rightarrow> nat \<times> effect list" where
  "writeImages L postDir [] st = st"
| "writeImages L postDir (imageUrl # rest) (delay, effs) =
     (let imageDir = path_join L [postDir, ''images'']
      in writeImages L postDir rest
           (delay + 25, effs @ [CreateDir imageDir, writeImageFile L imageUrl imageDir delay]))"

definition writePost :: "libs \<Rightarrow> argv \<Rightarrow> nat \<times> effect list \<Rightarrow> post \<Rightarrow> nat \<times> effect list" where
  "writePost L args st p =
     (let postDir = getPostDir L args p;
          st = (fst st, snd st @ [CreateDir postDir, writeMarkdownFile L args p postDir])
      in if saveimages args
         then (case imageUrls (meta p) of
                 None \<Rightarrow> st
               | Some urls \<Rightarrow> writeImages L postDir urls st)
         else st)"

definition writeFiles :: "libs \<Rightarrow> argv \<Rightarrow> post list \<Rightarrow> effect list" where
  "writeFiles L args posts = snd (foldl (writePost L args) (0, []) posts)"

definition processData :: "libs \<Rightarrow> argv \<Rightarrow> item list \<Rightarrow> channel_author list \<Rightarrow> error + effect list" where
  "processData L args data channel_authors =
     (case collectImages L args data of
        Inl e \<Rightarrow> Inl e
      | Inr images \<Rightarrow>
          (let authors = collectAuthors channel_authors
           in case collectPosts L args data authors of
                Inl e \<Rightarrow> Inl e
              | Inr posts \<Rightarrow>
                  (case mergeImagesIntoPosts images posts of
                     Inl e \<Rightarrow> Inl e
                   | Inr posts' \<Rightarrow> Inr (writeFiles L args posts'))))"


section \<open>Notions used to state the properties\<close>

text \<open>\<open>Object.keys\<close> of a value that is an object.\<close>

definition ownKeys :: "jsval \<Rightarrow> string list" where
  "ownKeys v = (case v of JObj kvs \<Rightarrow> keys kvs | _ \<Rightarrow> [])"

text \<open>The image URLs linked to a post so far: none while \<open>imageUrls\<close> is undefined.\<close>

definition urlsOf :: "post \<Rightarrow> string list" where
  "urlsOf p = (case imageUrls (meta p) of None \<Rightarrow> [] | Some us \<Rightarrow> us)"

text \<open>
  The owner of an image among the posts, as the linker's rule is worded: the earliest
  post whose \<open>thumbnailImageId\<close> equals the image's id; failing that, the post whose id is
  the image's \<open>postId\<close> (the last one, should several posts have that id); failing that,
  none. A post is named by its index.
\<close>

definition owner :: "post list \<Rightarrow> image \<Rightarrow> nat option" where
  "owner posts img =
     (case List.find (\<lambda>i. idEq (thumbnailImageId (meta (posts ! i))) (image_id img))
             [0..<length posts] of
        Some i \<Rightarrow> Some i
      | None \<Rightarrow> List.find (\<lambda>i. meta_id (meta (posts ! i)) = postId img) (rev [0..<length posts]))"

text \<open>Linking an image to its owner, and to no other post.\<close>

definition assign :: "post list \<Rightarrow> post list \<Rightarrow> image \<Rightarrow> post list" where
  "assign posts0 ps img =
     (case owner posts0 img of None \<Rightarrow> ps | Some i \<Rightarrow> ps[i := linkImage img (ps ! i)])"

text \<open>What the linker reads of a post to choose and to mark it: its three ids.\<close>

definition ids :: "post \<Rightarrow> string \<times> string option \<times> string option" where
  "ids p = (meta_id (meta p), thumbnailImageId (meta p), featureImageId (meta p))"

text \<open>
  \<open>push\<close> on the \<open>imageUrls\<close> of a frontmatter's \<open>meta\<close> throws: the value is truthy and not
  an array.
\<close>

definition pushThrows :: "(string \<times> jsval) list \<Rightarrow> bool" where
  "pushThrows m =
     (case map_of m ''imageUrls'' of
        None \<Rightarrow> False
      | Some v \<Rightarrow> truthy v \<and> (case v of JArr us \<Rightarrow> False | _ \<Rightarrow> True))"

text \<open>The array that \<open>imageUrls\<close> of a frontmatter's \<open>meta\<close> is before the push.\<close>

definition oldUrls :: "(string \<times> jsval) list \<Rightarrow> jsval list" where
  "oldUrls m = (case map_of m ''imageUrls'' of Some (JArr us) \<Rightarrow> us | _ \<Rightarrow> [])"

text \<open>
  What the linker reads of a post, and the images it sets: the ids, the content, the
  \<open>images\<close> of the frontmatter, the properties of the frontmatter's \<open>meta\<close> other than
  \<open>imageUrls\<close>, and whether a push on that one throws. Left out are the two lists of
  image URLs and what else the linker never reads.
\<close>

definition view ::
  "post \<Rightarrow> (string \<times> string option \<times> string option) \<times> string \<times> (string \<times> jsval) list
          \<times> (string \<Rightarrow> jsval option) \<times> bool" where
  "view p =
     (ids p, content p, fm_images (frontmatter p),
      (\<lambda>k. if k = ''imageUrls'' then None else map_of (fm_meta (frontmatter p)) k),
      pushThrows (fm_meta (frontmatter p)))"

text \<open>A frontmatter without its \<open>images\<close> and its \<open>meta\<close>.\<close>

definition fixedPart :: "post_frontmatter \<Rightarrow> post_frontmatter" where
  "fixedPart fm = fm\<lparr>fm_images := [], fm_meta := []\<rparr>"

text \<open>The table names posts of a list of \<open>n\<close> posts only.\<close>

definition inRange :: "nat \<Rightarrow> table \<Rightarrow> bool" where
  "inRange n t = ((\<forall>k i. own t k = Some i \<longrightarrow> i < n) \<and> (\<forall>i. proto t = Some i \<longrightarrow> i < n))"

text \<open>The image requests among the effects: URL and delay, in order.\<close>

fun scheduled :: "effect list \<Rightarrow> (string \<times> nat) list" where
  "scheduled [] = []"
| "scheduled (WriteImageFile u p d # es) = (u, d) # scheduled es"
| "scheduled (e # es) = scheduled es"

text \<open>
  The state of \<open>writeFiles\<close> is staggered when the counter is 25 times the number of
  requests made so far and the request at position \<open>n\<close> (from 0) has delay \<open>25 * n\<close>.
\<close>

definition staggered :: "nat \<times> effect list \<Rightarrow> bool" where
  "staggered st =
     (fst st = 25 * length (scheduled (snd st)) \<and>
      map snd (scheduled (snd st)) = map (\<lambda>n. 25 * n) [0..<length (scheduled (snd st))])"


section \<open>Example data\<close>

text \<open>
  Stand-ins for the libraries, to run the program on examples: \<open>path.join\<close> as the
  segments with a slash between them; the formats \<open>yyyy\<close>, \<open>LL\<close> and \<open>yyyy-LL-dd\<close> read
  off an ISO date, and \<open>Invalid DateTime\<close> for \<open>null\<close>; one fixed publication date; texts
  left as they are by the string and markup functions; an image source resolved by
  appending it to the post's link; and one image source, \<open>pic.jpg\<close>, found in every body
  that is not empty.
\<close>

definition joinSegments :: "string list \<Rightarrow> string" where
  "joinSegments parts = foldr (\<lambda>a b. if b = [] then a else a @ ''/'' @ b) parts []"

definition formatIso :: "string option \<Rightarrow> string \<Rightarrow> string" where
  "formatIso d f =
     (case d of
        None \<Rightarrow> ''Invalid DateTime''
      | Some s \<Rightarrow> (if f = ''yyyy'' then take 4 s
                   else if f = ''LL'' then take 2 (drop 5 s)
                   else s))"

definition exampleLibs :: libs where
  "exampleLibs =
     \<lparr>path_join = joinSegments,
      toFormat = formatIso,
      toISODate = (\<lambda>s. Some ''2021-06-15''),
      stringify = (\<lambda>v. []),
      turndown = (\<lambda>s. s),
      trim = (\<lambda>s. s),
      toLowerCase = (\<lambda>s. s),
      resolveUrl = (\<lambda>src base. Inr (base @ src)),
      imgSrcMatches = (\<lambda>body. if body = [] then [] else [''pic.jpg'']),
      localizeImgSrc = (\<lambda>s. s),
      markIframes = (\<lambda>s. s),
      tidyListItems = (\<lambda>s. s),
      unmarkIframes = (\<lambda>s. s)\<rparr>"

definition exampleArgs :: argv where
  "exampleArgs =
     \<lparr>output_arg = ''output'', filter_arg = None, folders = ''year'', prefixdate = False,
      namedfiles = False, saveimages = True, addcontentimages = True\<rparr>"

text \<open>
  Two posts and three attachments. The first post, \<open>Hello World\<close>, has no name, one tag
  that is the empty string, and attachment 20 as its thumbnail; attachment 20 is declared
  under the second post, attachment 21 too, and attachment 22 under a post that is not
  in the export.
\<close>

definition helloItem :: item where
  "helloItem =
     \<lparr>post_type = ''post'', post_id = ''10'', post_name = [], post_parent = ''0'',
      attachment_url = [], link = ''https://example.com/hello-world/'',
      item_status = ''publish'', item_title = ''Hello World'', creator = ''admin'',
      pubDate = ''Tue, 15 Jun 2021 10:00:00 +0000'', encoded_body = ''Hi'',
      encoded_excerpt = None, category = Some [(''post_tag'', [])],
      postmeta = Some [(''_edit_last'', ''1''), (''_thumbnail_id'', ''20'')]\<rparr>"

definition secondItem :: item where
  "secondItem =
     \<lparr>post_type = ''post'', post_id = ''11'', post_name = ''second'', post_parent = ''0'',
      attachment_url = [], link = ''https://example.com/2021/second/'',
      item_status = ''draft'', item_title = ''Second'', creator = ''admin'',
      pubDate = ''Tue, 15 Jun 2021 10:00:00 +0000'', encoded_body = [],
      encoded_excerpt = None, category = None, postmeta = None\<rparr>"

definition attachmentItem :: "string \<Rightarrow> string \<Rightarrow> string \<Rightarrow> item" where
  "attachmentItem ident parent u =
     \<lparr>post_type = ''attachment'', post_id = ident, post_name = [], post_parent = parent,
      attachment_url = u, link = [], item_status = ''inherit'', item_title = [],
      creator = ''admin'', pubDate = [], encoded_body = [], encoded_excerpt = None,
      category = None, postmeta = None\<rparr>"

definition exampleData :: "item list" where
  "exampleData =
     [helloItem, secondItem,
      attachmentItem ''20'' ''11'' ''https://example.com/files/cover.png'',
      attachmentItem ''21'' ''11'' ''https://example.com/files/photo.JPG'',
      attachmentItem ''22'' ''99'' ''https://example.com/files/lost.gif'']"

definition exampleAuthors :: "channel_author list" where
  "exampleAuthors = [\<lparr>author_login = ''admin'', author_display_name = ''Ada''\<rparr>]"

text \<open>The two posts as \<open>collectPosts\<close> builds them, and the images of the example.\<close>

definition helloPost :: post where
  "helloPost =
     \<lparr>meta = \<lparr>meta_id = ''10'', slug = ''10'', path = ''hello-world'', status = ''publish'',
              thumbnailImageId = Some ''20'', featureImageId = None, imageUrls = None\<rparr>,
      frontmatter = \<lparr>fm_slug = ''10'', fm_title = ''Hello World'', fm_summary = [],
                     fm_author = ''Ada'', fm_date = Some ''2021-06-15'', fm_images = [],
                     fm_categories = [], fm_tags = [[]], fm_meta = []\<rparr>,
      content = ''Hi''\<rparr>"

definition secondPost :: post where
  "secondPost =
     \<lparr>meta = \<lparr>meta_id = ''11'', slug = ''second'', path = ''2021/second'', status = ''draft'',
              thumbnailImageId = None, featureImageId = None, imageUrls = None\<rparr>,
      frontmatter = \<lparr>fm_slug = ''second'', fm_title = ''Second'', fm_summary = [],
                     fm_author = ''Ada'', fm_date = Some ''2021-06-15'', fm_images = [],
                     fm_categories = [], fm_tags = [], fm_meta = []\<rparr>,
      content = []\<rparr>"

definition coverImage :: image where
  "coverImage = \<lparr>image_id = IdStr ''20'', postId = ''11'',
                  url = ''https://example.com/files/cover.png''\<rparr>"

definition photoImage :: image where
  "photoImage = \<lparr>image_id = IdStr ''21'', postId = ''11'',
                  url = ''https://example.com/files/photo.JPG''\<rparr>"

definition lostImage :: image where
  "lostImage = \<lparr>image_id = IdStr ''22'', postId = ''99'',
                 url = ''https://example.com/files/lost.gif''\<rparr>"

definition scrapedImage :: image where
  "scrapedImage = \<lparr>image_id = IdNum (- 1), postId = ''10'',
                    url = ''https://example.com/hello-world/pic.jpg''\<rparr>"

text \<open>
  The two posts after the linker has run, given the image URLs of the first post, and
  an attachment declared under a post called \<open>constructor\<close>.
\<close>

definition linkedPosts :: "string list \<Rightarrow> post list" where
  "linkedPosts helloUrls =
     [helloPost\<lparr>meta := (meta helloPost)\<lparr>imageUrls := Some helloUrls\<rparr>,
                frontmatter := (frontmatter helloPost)
                  \<lparr>fm_images := [(''thumbnail'', JStr ''./images/cover.png'')]\<rparr>\<rparr>,
      secondPost\<lparr>meta := (meta secondPost)
                  \<lparr>imageUrls := Some [''https://example.com/files/photo.JPG'']\<rparr>\<rparr>]"

definition strayImage :: image where
  "strayImage = \<lparr>image_id = IdStr ''23'', postId = ''constructor'',
                  url = ''https://example.com/files/stray.png''\<rparr>"


section \<open>Pruning: \<open>isEmpty\<close> and \<open>clean\<close>\<close>

lemma clean_JObj: "clean (JObj kvs) = JObj (foldl keepsProp [] kvs)"
proof -
  have "keepsProp = (\<lambda>output (key, value).
       if \<not> isEmpty value then
         (let value' = clean value in
          if \<not> isEmpty value' then setProp output key value' else output)
       else output)"
    by (rule ext)+ (simp add: keepsProp_def)
  then show ?thesis by simp
qed

lemma setProp_keys: "fst ` set (setProp ps key v) = insert key (fst ` set ps)"
  by (induction ps key v rule: setProp.induct) auto

lemma setProp_distinct: "distinct (map fst ps) \<Longrightarrow> distinct (map fst (setProp ps key v))"
proof (induction ps)
  case Nil
  then show ?case by simp
next
  case (Cons p ps)
  obtain k w where p: "p = (k, w)" by (cases p)
  have "k \<noteq> key \<Longrightarrow> k \<notin> fst ` set (setProp ps key v)"
    using Cons.prems by (simp add: setProp_keys p)
  with Cons show ?case by (auto simp: p)
qed

lemma setProp_values: "snd ` set (setProp ps key v) \<subseteq> insert v (snd ` set ps)"
  by (induction ps key v rule: setProp.induct) auto

lemma setProp_fresh: "key \<notin> fst ` set ps \<Longrightarrow> setProp ps key v = ps @ [(key, v)]"
  by (induction ps key v rule: setProp.induct) auto

lemma keepsProp_inv:
  assumes "distinct (map fst acc)" and "\<forall>w \<in> snd ` set acc. settled w"
    and "\<not> isEmpty (snd kv) \<Longrightarrow> clean (clean (snd kv)) = clean (snd kv)"
  shows "distinct (map fst (keepsProp acc kv)) \<and>
         (\<forall>w \<in> snd ` set (keepsProp acc kv). settled w)"
proof (cases kv)
  case (Pair key v)
  show ?thesis
  proof (cases "\<not> isEmpty v \<and> \<not> isEmpty (clean v)")
    case True
    then have eq: "keepsProp acc kv = setProp acc key (clean v)"
      by (simp add: keepsProp_def Pair)
    have sc: "settled (clean v)" using True assms(3) by (simp add: settled_def Pair)
    have "settled w" if "w \<in> snd ` set (setProp acc key (clean v))" for w
    proof -
      from that setProp_values[of acc key "clean v"]
      have "w = clean v \<or> w \<in> snd ` set acc" by auto
      then show ?thesis using sc assms(2) by auto
    qed
    then show ?thesis using assms(1) by (simp add: eq setProp_distinct)
  next
    case False
    then have "keepsProp acc kv = acc" by (auto simp: keepsProp_def Pair Let_def)
    then show ?thesis using assms by simp
  qed
qed

lemma foldl_keepsProp_inv:
  assumes "distinct (map fst acc)" and "\<forall>w \<in> snd ` set acc. settled w"
    and "\<And>kv. kv \<in> set kvs \<Longrightarrow> \<not> isEmpty (snd kv) \<Longrightarrow>
           clean (clean (snd kv)) = clean (snd kv)"
  shows "distinct (map fst (foldl keepsProp acc kvs)) \<and>
         (\<forall>w \<in> snd ` set (foldl keepsProp acc kvs). settled w)"
  using assms
proof (induction kvs arbitrary: acc)
  case Nil
  then show ?case by simp
next
  case (Cons kv kvs)
  have step: "distinct (map fst (keepsProp acc kv)) \<and>
              (\<forall>w \<in> snd ` set (keepsProp acc kv). settled w)"
    using Cons.prems by (intro keepsProp_inv) auto
  show ?case
    using Cons.IH[of "keepsProp acc kv"] step Cons.prems(3) by simp
qed

lemma foldl_keepsProp_settled:
  assumes "distinct (map fst (acc @ ps))" and "\<forall>w \<in> snd ` set ps. settled w"
  shows "foldl keepsProp acc ps = acc @ ps"
  using assms
proof (induction ps arbitrary: acc)
  case Nil
  then show ?case by simp
next
  case (Cons p ps)
  obtain k v where p: "p = (k, v)" by (cases p)
  have sv: "settled v" using Cons.prems(2) by (simp add: p)
  have fresh: "k \<notin> fst ` set acc" using Cons.prems(1) by (auto simp: p)
  have "keepsProp acc p = acc @ [p]"
    using sv fresh by (simp add: keepsProp_def p settled_def setProp_fresh)
  moreover have "foldl keepsProp (acc @ [p]) ps = (acc @ [p]) @ ps"
    using Cons.prems by (intro Cons.IH) auto
  ultimately show ?case by simp
qed

text \<open>
  C3. \<open>clean\<close> is idempotent: cleaning a cleaned value gives the cleaned value again, for
  every nested structure of arrays, objects and primitive values.
\<close>

theorem clean_idempotent: "clean (clean x) = clean x"
proof (induction x rule: clean.induct)
  case (1 xs)
  have "map clean (filter (\<lambda>value. \<not> isEmpty value) (map clean xs))
        = filter (\<lambda>value. \<not> isEmpty value) (map clean xs)"
    using 1 by (induction xs) auto
  then show ?case by simp
next
  case (2 kvs)
  have ih: "\<And>kv. kv \<in> set kvs \<Longrightarrow> \<not> isEmpty (snd kv) \<Longrightarrow>
              clean (clean (snd kv)) = clean (snd kv)"
    using 2 by (metis prod.collapse)
  have inv: "distinct (map fst (foldl keepsProp [] kvs)) \<and>
         (\<forall>w \<in> snd ` set (foldl keepsProp [] kvs). settled w)"
    by (rule foldl_keepsProp_inv) (use ih in auto)
  have "foldl keepsProp [] (foldl keepsProp [] kvs) = [] @ foldl keepsProp [] kvs"
    by (rule foldl_keepsProp_settled) (use inv in auto)
  then show ?case by (simp only: clean_JObj append_Nil)
qed simp_all

section \<open>File names from URLs\<close>

lemma split_str_not_Nil: "split_str sep s \<noteq> []"
  by (induction s) (auto split: list.splits)

lemma split_str_no_sep: "sep \<notin> set s \<Longrightarrow> split_str sep s = [s]"
  by (induction s) auto

lemma split_str_sep: "sep \<in> set s \<Longrightarrow> 2 \<le> length (split_str sep s)"
proof (induction s)
  case Nil
  then show ?case by simp
next
  case (Cons c cs)
  show ?case
  proof (cases "c = sep")
    case True
    then show ?thesis using split_str_not_Nil[of sep cs]
      by (cases "split_str sep cs") auto
  next
    case False
    then have "sep \<in> set cs" using Cons.prems by auto
    then have "2 \<le> length (split_str sep cs)" by (rule Cons.IH)
    then show ?thesis using False by (cases "split_str sep cs") auto
  qed
qed

lemma last_split_str:
  "last (split_str sep s) = rev (takeWhile (\<lambda>c. c \<noteq> sep) (rev s))"
proof (induction s)
  case Nil
  then show ?case by simp
next
  case (Cons c cs)
  show ?case
  proof (cases "c = sep")
    case True
    then have "last (split_str sep (c # cs)) = last (split_str sep cs)"
      by (simp add: split_str_not_Nil)
    also have "\<dots> = rev (takeWhile (\<lambda>c. c \<noteq> sep) (rev cs))" by (rule Cons.IH)
    also have "\<dots> = rev (takeWhile (\<lambda>c. c \<noteq> sep) (rev (c # cs)))"
      using True by (simp add: takeWhile_append)
    finally show ?thesis .
  next
    case False
    show ?thesis
    proof (cases "sep \<in> set cs")
      case True
      then have len: "2 \<le> length (split_str sep cs)" by (rule split_str_sep)
      then obtain w v vs where sp: "split_str sep cs = w # v # vs"
        by (cases "split_str sep cs"; cases "tl (split_str sep cs)") auto
      have "last (split_str sep (c # cs)) = last (split_str sep cs)"
        using False by (simp add: sp)
      also have "\<dots> = rev (takeWhile (\<lambda>c. c \<noteq> sep) (rev cs))" by (rule Cons.IH)
      also have "\<dots> = rev (takeWhile (\<lambda>c. c \<noteq> sep) (rev (c # cs)))"
        using True by (simp add: takeWhile_append1)
      finally show ?thesis .
    next
      case nosep: False
      then have "split_str sep cs = [cs]" by (rule split_str_no_sep)
      then have l: "last (split_str sep (c # cs)) = c # cs" using False by simp
      have "takeWhile (\<lambda>c. c \<noteq> sep) (rev (c # cs)) = rev (c # cs)"
        using nosep False by (intro takeWhile_eq_all_conv[THEN iffD2]) auto
      then have "rev (takeWhile (\<lambda>c. c \<noteq> sep) (rev (c # cs))) = c # cs"
        by (simp only: rev_rev_ident)
      with l show ?thesis by (simp only:)
    qed
  qed
qed

lemma getFilenameFromUrl_lastSegment: "getFilenameFromUrl u = lastSegment u"
  by (simp add: getFilenameFromUrl_def lastSegment_def last_split_str)


lemma foldl_keepsProp_keys:
  "fst ` set (foldl keepsProp acc kvs) =
   fst ` set acc \<union> {k. \<exists>v. (k, v) \<in> set kvs \<and> \<not> isEmpty v \<and> \<not> isEmpty (clean v)}"
proof (induction kvs arbitrary: acc)
  case Nil
  then show ?case by simp
next
  case (Cons kv kvs)
  obtain k v where kv: "kv = (k, v)" by (cases kv)
  have step: "fst ` set (keepsProp acc kv) =
              fst ` set acc \<union> (if \<not> isEmpty v \<and> \<not> isEmpty (clean v) then {k} else {})"
    by (simp add: keepsProp_def kv Let_def setProp_keys)
  have "fst ` set (foldl keepsProp acc (kv # kvs)) =
        fst ` set (keepsProp acc kv) \<union>
        {k. \<exists>v. (k, v) \<in> set kvs \<and> \<not> isEmpty v \<and> \<not> isEmpty (clean v)}"
    using Cons.IH[of "keepsProp acc kv"] by simp
  also have "\<dots> = fst ` set acc \<union>
        {k'. \<exists>v'. (k', v') \<in> set (kv # kvs) \<and> \<not> isEmpty v' \<and> \<not> isEmpty (clean v')}"
    unfolding step by (auto simp: kv)
  finally show ?case .
qed

lemma all_falsy_isEmpty: "(\<forall>v \<in> set xs. \<not> truthy v) \<Longrightarrow> isEmpty (JArr xs)"
  by (simp add: filter_empty_conv)

lemma empty_value_key_pruned:
  assumes "distinct (keys kvs)" and "(key, v) \<in> set kvs" and "isEmpty v"
  shows "key \<notin> set (ownKeys (clean (JObj kvs)))"
proof
  assume "key \<in> set (ownKeys (clean (JObj kvs)))"
  then have "key \<in> fst ` set (foldl keepsProp [] kvs)"
    by (simp add: ownKeys_def clean_JObj keys_def del: clean.simps)
  then obtain v' where v': "(key, v') \<in> set kvs" "\<not> isEmpty v'"
    by (auto simp: foldl_keepsProp_keys)
  have "v' = v"
    using assms(1,2) v'(1) by (auto simp: keys_def dest: eq_key_imp_eq_value)
  with v'(2) assms(3) show False by simp
qed

lemma frontmatterObject_keys:
  "keys (case frontmatterObject fm of JObj kvs \<Rightarrow> kvs | _ \<Rightarrow> []) =
   [''slug'', ''title'', ''summary'', ''author'', ''date'', ''images'', ''categories'',
    ''tags'', ''meta'']"
  by (simp add: frontmatterObject_def keys_def)

text \<open>
  C10. An array is judged empty after its falsy entries are discarded: an array whose
  entries are all falsy is empty for \<open>isEmpty\<close> although it has entries (so are \<open>[0]\<close>,
  \<open>[false]\<close> and \<open>['']\<close>), and \<open>clean\<close> drops the key that holds such an array from an
  object. In the frontmatter that \<open>writeMarkdownFile\<close> serializes, tags that are all the
  empty string take the key \<open>tags\<close> away.
\<close>

theorem falsy_array_key_pruned:
  "((\<forall>v \<in> set xs. \<not> truthy v) \<longrightarrow> isEmpty (JArr xs)) \<and>
   ((\<forall>v \<in> set xs. \<not> truthy v) \<and> distinct (keys kvs) \<and> (key, JArr xs) \<in> set kvs
      \<longrightarrow> key \<notin> set (ownKeys (clean (JObj kvs)))) \<and>
   isEmpty (JArr [JNum 0]) \<and> isEmpty (JArr [JBool False]) \<and> isEmpty (JArr [JStr []]) \<and>
   (fm_tags (frontmatter p) \<noteq> [] \<and> (\<forall>t \<in> set (fm_tags (frontmatter p)). t = [])
      \<longrightarrow> (\<exists>path fm. writeMarkdownFile L args p dir =
                 WriteFile path (''---'' @ [CHR 0x0A] @ stringify L fm @ ''---''
                                 @ [CHR 0x0A, CHR 0x0A] @ content p @ [CHR 0x0A])
               \<and> fm = clean (frontmatterObject (frontmatter p))
               \<and> ''tags'' \<notin> set (ownKeys fm)))"
proof (intro conjI impI)
  assume "\<forall>v \<in> set xs. \<not> truthy v"
  then show "isEmpty (JArr xs)" by (rule all_falsy_isEmpty)
next
  assume a: "(\<forall>v \<in> set xs. \<not> truthy v) \<and> distinct (keys kvs) \<and> (key, JArr xs) \<in> set kvs"
  then have "isEmpty (JArr xs)" by (simp add: all_falsy_isEmpty)
  with a show "key \<notin> set (ownKeys (clean (JObj kvs)))"
    by (intro empty_value_key_pruned[where v = "JArr xs"]) auto
next
  show "isEmpty (JArr [JNum 0])" by simp
  show "isEmpty (JArr [JBool False])" by simp
  show "isEmpty (JArr [JStr []])" by simp
next
  assume a: "fm_tags (frontmatter p) \<noteq> [] \<and> (\<forall>t \<in> set (fm_tags (frontmatter p)). t = [])"
  define kvs where "kvs = (case frontmatterObject (frontmatter p) of JObj kvs \<Rightarrow> kvs | _ \<Rightarrow> [])"
  have obj: "frontmatterObject (frontmatter p) = JObj kvs"
    by (simp add: kvs_def frontmatterObject_def)
  have d: "distinct (keys kvs)"
    unfolding kvs_def frontmatterObject_keys by simp
  have m: "(''tags'', JArr (map JStr (fm_tags (frontmatter p)))) \<in> set kvs"
    by (simp add: kvs_def frontmatterObject_def)
  have e: "isEmpty (JArr (map JStr (fm_tags (frontmatter p))))"
    using a by (intro all_falsy_isEmpty) auto
  have "''tags'' \<notin> set (ownKeys (clean (frontmatterObject (frontmatter p))))"
    unfolding obj using d m e by (rule empty_value_key_pruned)
  then show "\<exists>path fm. writeMarkdownFile L args p dir =
                 WriteFile path (''---'' @ [CHR 0x0A] @ stringify L fm @ ''---''
                                 @ [CHR 0x0A, CHR 0x0A] @ content p @ [CHR 0x0A])
               \<and> fm = clean (frontmatterObject (frontmatter p))
               \<and> ''tags'' \<notin> set (ownKeys fm)"
    by (simp add: writeMarkdownFile_def Let_def)
qed


section \<open>The image-post linker\<close>

lemma filter_head_find:
  "(case filter P xs of [] \<Rightarrow> None | i # _ \<Rightarrow> Some i) = List.find P xs"
  by (induction xs) auto

lemma findByThumbnail_find:
  "findByThumbnail posts img =
   List.find (\<lambda>i. idEq (thumbnailImageId (meta (posts ! i))) (image_id img)) [0..<length posts]"
  unfolding findByThumbnail_def by (rule filter_head_find)

lemma foldl_setEntry_own:
  "own (foldl (\<lambda>lookup i. setEntry lookup (f i) i) t xs) k =
   (if k = ''__proto__'' then own t k
    else (case List.find (\<lambda>i. f i = k) (rev xs) of Some i \<Rightarrow> Some i | None \<Rightarrow> own t k))"
  by (induction xs rule: rev_induct) (auto simp: setEntry_def)

lemma foldl_setEntry_proto:
  "proto (foldl (\<lambda>lookup i. setEntry lookup (f i) i) t xs) =
   (case List.find (\<lambda>i. f i = ''__proto__'') (rev xs) of Some i \<Rightarrow> Some i | None \<Rightarrow> proto t)"
  by (induction xs rule: rev_induct) (auto simp: setEntry_def)

lemma own_postsLookup:
  "own (postsLookup posts) k =
   (if k = ''__proto__'' then None
    else List.find (\<lambda>i. meta_id (meta (posts ! i)) = k) (rev [0..<length posts]))"
  unfolding postsLookup_def
  by (simp add: foldl_setEntry_own split: option.splits)

lemma proto_postsLookup:
  "proto (postsLookup posts) =
   List.find (\<lambda>i. meta_id (meta (posts ! i)) = ''__proto__'') (rev [0..<length posts])"
  unfolding postsLookup_def
  by (simp add: foldl_setEntry_proto split: option.splits)

lemma proto_postsLookup_None:
  assumes "\<forall>p \<in> set posts. meta_id (meta p) \<noteq> ''__proto__''"
  shows "proto (postsLookup posts) = None"
  using assms by (auto simp: proto_postsLookup find_None_iff)

lemma getEntry_postsLookup_plain:
  assumes "\<forall>p \<in> set posts. meta_id (meta p) \<noteq> ''__proto__''"
    and "k \<notin> set objectPrototypeNames"
  shows "getEntry (postsLookup posts) k =
         (case List.find (\<lambda>i. meta_id (meta (posts ! i)) = k) (rev [0..<length posts]) of
            Some i \<Rightarrow> APost i
          | None \<Rightarrow> AnUndefined)"
proof -
  have "k \<noteq> ''__proto__''" using assms(2) by (auto simp: objectPrototypeNames_def)
  then show ?thesis
    using assms(2)
    by (simp add: getEntry_def own_postsLookup proto_postsLookup_None[OF assms(1)]
        split: option.splits)
qed

lemma getEntry_AFrontmatter: "getEntry t k = AFrontmatter p \<Longrightarrow> k = ''frontmatter''"
  by (auto simp: getEntry_def split: option.splits if_splits)

lemma find_upt_Some_iff:
  "List.find P [0..<n] = Some i \<longleftrightarrow> i < n \<and> P i \<and> (\<forall>j<i. \<not> P j)"
proof
  assume "List.find P [0..<n] = Some i"
  then obtain k where k: "k < length [0..<n]" "P ([0..<n] ! k)" "i = [0..<n] ! k"
      "\<forall>j<k. \<not> P ([0..<n] ! j)"
    unfolding find_Some_iff by blast
  then have "k < n" by simp
  with k show "i < n \<and> P i \<and> (\<forall>j<i. \<not> P j)" by auto
next
  assume a: "i < n \<and> P i \<and> (\<forall>j<i. \<not> P j)"
  then have "i < length [0..<n] \<and> P ([0..<n] ! i) \<and> i = [0..<n] ! i \<and>
             (\<forall>j<i. \<not> P ([0..<n] ! j))" by auto
  then show "List.find P [0..<n] = Some i"
    unfolding find_Some_iff by blast
qed

lemma find_rev_upt_Some_iff:
  "List.find P (rev [0..<n]) = Some i \<longleftrightarrow> i < n \<and> P i \<and> (\<forall>j<n. i < j \<longrightarrow> \<not> P j)"
proof (induction n)
  case 0
  then show ?case by simp
next
  case (Suc n)
  show ?case
  proof (cases "P n")
    case True
    then show ?thesis
      by (auto simp: less_Suc_eq)
  next
    case False
    then show ?thesis
      using Suc by (auto simp: less_Suc_eq)
  qed
qed

lemma find_upt_None_iff: "List.find P [0..<n] = None \<longleftrightarrow> (\<forall>j<n. \<not> P j)"
  by (auto simp: find_None_iff)

lemma find_rev_upt_None_iff: "List.find P (rev [0..<n]) = None \<longleftrightarrow> (\<forall>j<n. \<not> P j)"
  by (auto simp: find_None_iff)

lemma owner_Some_iff:
  "owner posts img = Some i \<longleftrightarrow>
     i < length posts \<and>
     (idEq (thumbnailImageId (meta (posts ! i))) (image_id img) \<and>
      (\<forall>j<i. \<not> idEq (thumbnailImageId (meta (posts ! j))) (image_id img))
      \<or>
      (\<forall>j<length posts. \<not> idEq (thumbnailImageId (meta (posts ! j))) (image_id img)) \<and>
      meta_id (meta (posts ! i)) = postId img \<and>
      (\<forall>j<length posts. i < j \<longrightarrow> meta_id (meta (posts ! j)) \<noteq> postId img))"
  (is "?L \<longleftrightarrow> ?R")
proof (cases "List.find (\<lambda>i. idEq (thumbnailImageId (meta (posts ! i))) (image_id img))
                [0..<length posts]")
  case None
  then have no: "\<forall>j<length posts. \<not> idEq (thumbnailImageId (meta (posts ! j))) (image_id img)"
    by (simp add: find_upt_None_iff)
  have "?L \<longleftrightarrow> List.find (\<lambda>i. meta_id (meta (posts ! i)) = postId img)
                   (rev [0..<length posts]) = Some i"
    by (simp add: owner_def None)
  also have "\<dots> \<longleftrightarrow> ?R"
    unfolding find_rev_upt_Some_iff using no by auto
  finally show ?thesis .
next
  case (Some k)
  then have k: "k < length posts"
      "idEq (thumbnailImageId (meta (posts ! k))) (image_id img)"
      "\<forall>j<k. \<not> idEq (thumbnailImageId (meta (posts ! j))) (image_id img)"
    by (simp_all add: find_upt_Some_iff)
  have "?L \<longleftrightarrow> k = i" by (simp add: owner_def Some)
  also have "\<dots> \<longleftrightarrow> ?R"
  proof
    assume "k = i"
    with k show ?R by auto
  next
    assume r: ?R
    with k(1,2) have *: "idEq (thumbnailImageId (meta (posts ! i))) (image_id img)"
      "\<forall>j<i. \<not> idEq (thumbnailImageId (meta (posts ! j))) (image_id img)" by auto
    show "k = i"
    proof (rule ccontr)
      assume "k \<noteq> i"
      then consider "k < i" | "i < k" by linarith
      then show False using * k by cases auto
    qed
  qed
  finally show ?thesis .
qed

lemma owner_None_iff:
  "owner posts img = None \<longleftrightarrow>
     (\<forall>j<length posts. \<not> idEq (thumbnailImageId (meta (posts ! j))) (image_id img) \<and>
                        meta_id (meta (posts ! j)) \<noteq> postId img)"
proof (cases "List.find (\<lambda>i. idEq (thumbnailImageId (meta (posts ! i))) (image_id img))
                [0..<length posts]")
  case None
  then show ?thesis
    using None[unfolded find_upt_None_iff]
    by (auto simp: owner_def find_rev_upt_None_iff)
next
  case (Some k)
  then have "k < length posts" "idEq (thumbnailImageId (meta (posts ! k))) (image_id img)"
    by (simp_all add: find_upt_Some_iff)
  then show ?thesis by (auto simp: owner_def Some)
qed

lemma findByThumbnail_ids:
  assumes "map ids ps = map ids qs"
  shows "findByThumbnail ps img = findByThumbnail qs img"
proof -
  have len: "length ps = length qs" using assms by (rule map_eq_imp_length_eq)
  have "ids (ps ! i) = ids (qs ! i)" if "i < length ps" for i
    using that assms len by (metis nth_map)
  then have "thumbnailImageId (meta (ps ! i)) = thumbnailImageId (meta (qs ! i))"
    if "i < length ps" for i
    using that by (simp add: ids_def)
  then have "filter (\<lambda>i. idEq (thumbnailImageId (meta (ps ! i))) (image_id img)) [0..<length ps]
           = filter (\<lambda>i. idEq (thumbnailImageId (meta (qs ! i))) (image_id img)) [0..<length ps]"
    by (intro filter_cong) auto
  then show ?thesis by (simp add: findByThumbnail_def len)
qed

lemma ids_linkImage: "ids (linkImage img p) = ids p"
  by (simp add: ids_def linkImage_def Let_def)

lemma map_update_same:
  assumes "f y = f (xs ! i)"
  shows "map f (xs[i := y]) = map f xs"
proof (cases "i < length xs")
  case True
  then show ?thesis using assms by (simp add: map_update list_update_same_conv)
next
  case False
  then have "length xs \<le> i" by simp
  then show ?thesis by (simp add: list_update_beyond)
qed

lemma linkFrontmatter_Inr:
  "linkFrontmatter img fm = Inr fm' \<Longrightarrow> \<exists>m. fm' = fm\<lparr>fm_meta := m\<rparr>"
  by (auto simp: linkFrontmatter_def Let_def split: jsval.splits if_splits)

text \<open>A step that does not throw leaves the posts, links the image, or marks a frontmatter.\<close>

lemma mergeImage_Inr_cases:
  assumes "mergeImage lookup ps img = Inr ps'"
  shows "ps' = ps \<or> (\<exists>k. ps' = ps[k := linkImage img (ps ! k)]) \<or>
         (\<exists>k m. postId img = ''frontmatter'' \<and>
                 linkFrontmatter img (frontmatter (ps ! k)) =
                   Inr ((frontmatter (ps ! k))\<lparr>fm_meta := m\<rparr>) \<and>
                 ps' = ps[k := (ps ! k)\<lparr>frontmatter := (frontmatter (ps ! k))\<lparr>fm_meta := m\<rparr>\<rparr>])"
proof (cases "findByThumbnail ps img")
  case (Some i)
  then show ?thesis
    using assms by (auto simp: mergeImage_def answerTruthy_def)
next
  case None
  show ?thesis
  proof (cases "getEntry lookup (postId img)")
    case (AFrontmatter k)
    then have key: "postId img = ''frontmatter''" by (rule getEntry_AFrontmatter)
    from assms obtain fm where fm: "linkFrontmatter img (frontmatter (ps ! k)) = Inr fm"
      and ps': "ps' = ps[k := (ps ! k)\<lparr>frontmatter := fm\<rparr>]"
      by (auto simp: mergeImage_def None AFrontmatter answerTruthy_def split: sum.splits)
    from linkFrontmatter_Inr[OF fm] obtain m where
      "fm = (frontmatter (ps ! k))\<lparr>fm_meta := m\<rparr>" by blast
    with fm ps' key show ?thesis by blast
  qed (use assms None in \<open>auto simp: mergeImage_def answerTruthy_def split: if_splits\<close>)
qed

lemma ids_mergeImage:
  assumes "mergeImage lookup ps img = Inr ps'"
  shows "map ids ps' = map ids ps"
proof -
  have a: "map ids (ps[k := linkImage img (ps ! k)]) = map ids ps" for k
    by (rule map_update_same) (rule ids_linkImage)
  have b: "map ids (ps[k := (ps ! k)\<lparr>frontmatter := fm\<rparr>]) = map ids ps" for k fm
    by (rule map_update_same) (simp add: ids_def)
  from mergeImage_Inr_cases[OF assms] show ?thesis
    using a b by auto
qed

lemma length_mergeImage: "mergeImage lookup ps img = Inr ps' \<Longrightarrow> length ps' = length ps"
  by (drule mergeImage_Inr_cases) auto

lemma owner_getEntry:
  assumes "\<forall>p \<in> set posts. meta_id (meta p) \<noteq> ''__proto__''"
    and "postId img \<notin> set objectPrototypeNames"
  shows "(case findByThumbnail posts img of
            Some i \<Rightarrow> APost i
          | None \<Rightarrow> getEntry (postsLookup posts) (postId img)) =
         (case owner posts img of Some i \<Rightarrow> APost i | None \<Rightarrow> AnUndefined)"
  by (simp add: owner_def findByThumbnail_find getEntry_postsLookup_plain[OF assms]
      split: option.splits)

lemma mergeImage_assign:
  assumes "map ids ps = map ids posts0"
    and "\<forall>p \<in> set posts0. meta_id (meta p) \<noteq> ''__proto__''"
    and "postId img \<notin> set objectPrototypeNames"
  shows "mergeImage (postsLookup posts0) ps img = Inr (assign posts0 ps img)"
proof -
  have "(case findByThumbnail ps img of
            Some i \<Rightarrow> APost i
          | None \<Rightarrow> getEntry (postsLookup posts0) (postId img)) =
        (case owner posts0 img of Some i \<Rightarrow> APost i | None \<Rightarrow> AnUndefined)"
    using owner_getEntry[OF assms(2,3)] by (simp add: findByThumbnail_ids[OF assms(1)])
  then show ?thesis
    by (simp add: mergeImage_def assign_def answerTruthy_def Let_def split: option.splits)
qed

lemma ids_assign: "map ids (assign posts0 ps img) = map ids ps"
  by (simp add: assign_def ids_linkImage map_update_same split: option.splits)

lemma mergeImages_assign:
  assumes "map ids ps = map ids posts0"
    and "\<forall>p \<in> set posts0. meta_id (meta p) \<noteq> ''__proto__''"
    and "\<forall>img \<in> set images. postId img \<notin> set objectPrototypeNames"
  shows "mergeImages (postsLookup posts0) images ps = Inr (foldl (assign posts0) ps images)"
  using assms(1,3)
proof (induction images arbitrary: ps)
  case Nil
  then show ?case by simp
next
  case (Cons img images)
  have step: "mergeImage (postsLookup posts0) ps img = Inr (assign posts0 ps img)"
    using Cons.prems assms(2) by (intro mergeImage_assign) simp_all
  have "map ids (assign posts0 ps img) = map ids posts0"
    using Cons.prems by (simp add: ids_assign)
  then show ?case
    using Cons.IH[of "assign posts0 ps img"] Cons.prems step by simp
qed

text \<open>
  The error path: an image without a thumbnail match whose \<open>postId\<close> is a name that every
  object inherits, and under which no post is stored, makes the linker throw.
\<close>

lemma mergeImage_inherited_name:
  assumes "findByThumbnail ps img = None" and "own lookup (postId img) = None"
    and "proto lookup = None" and "postId img \<in> set objectPrototypeNames"
  shows "mergeImage lookup ps img = Inl TypeError"
  using assms by (simp add: mergeImage_def getEntry_def answerTruthy_def)

lemma urlsOf_linkImage: "urlsOf (linkImage img p) = urlsOf p @ [url img]"
  by (simp add: urlsOf_def linkImage_def Let_def)

lemma length_assign: "length (assign posts0 ps img) = length ps"
  by (simp add: assign_def split: option.splits)

lemma urlsOf_assign:
  assumes "i < length ps"
  shows "urlsOf (assign posts0 ps img ! i) =
         urlsOf (ps ! i) @ (if owner posts0 img = Some i then [url img] else [])"
  using assms by (auto simp: assign_def urlsOf_linkImage split: option.splits)

lemma urlsOf_foldl_assign:
  assumes "i < length ps"
  shows "urlsOf (foldl (assign posts0) ps images ! i) =
         urlsOf (ps ! i) @ map url (filter (\<lambda>img. owner posts0 img = Some i) images)"
  using assms
proof (induction images arbitrary: ps)
  case Nil
  then show ?case by simp
next
  case (Cons img images)
  have "i < length (assign posts0 ps img)" using Cons.prems by (simp add: length_assign)
  then show ?case
    using Cons.IH[of "assign posts0 ps img"] Cons.prems by (simp add: urlsOf_assign)
qed


lemma map_of_setProp_same: "map_of (setProp ps key v) key = Some v"
  by (induction ps key v rule: setProp.induct) auto

lemma map_of_setProp_other: "k \<noteq> key \<Longrightarrow> map_of (setProp ps key v) k = map_of ps k"
  by (induction ps key v rule: setProp.induct) auto

lemma idEq_same_id: "idEq t a \<Longrightarrow> idEq t b \<Longrightarrow> a = b"
  by (cases t; cases a; cases b) auto

lemma idEq_IdNum: "\<not> idEq t (IdNum n)"
  by (cases t) auto

lemma thumbnail_linkImage:
  assumes "idEq (thumbnailImageId (meta p)) (image_id img)"
  shows "map_of (fm_images (frontmatter (linkImage img p))) ''thumbnail'' =
         Some (JStr (''./images/'' @ lastSegment (url img)))"
  using assms
  by (simp add: linkImage_def Let_def map_of_setProp_same map_of_setProp_other
      getFilenameFromUrl_lastSegment)

lemma thumbnail_linkImage_other:
  assumes "\<not> idEq (thumbnailImageId (meta p)) (image_id img)"
  shows "map_of (fm_images (frontmatter (linkImage img p))) ''thumbnail'' =
         map_of (fm_images (frontmatter p)) ''thumbnail''"
  using assms by (simp add: linkImage_def Let_def map_of_setProp_other)

lemma findByThumbnail_Some_iff:
  "findByThumbnail ps img = Some i \<longleftrightarrow>
     i < length ps \<and> idEq (thumbnailImageId (meta (ps ! i))) (image_id img) \<and>
     (\<forall>j<i. \<not> idEq (thumbnailImageId (meta (ps ! j))) (image_id img))"
  by (simp add: findByThumbnail_find find_upt_Some_iff)

lemma mergeImage_thumbnail_match:
  assumes "i < length ps" and "idEq (thumbnailImageId (meta (ps ! i))) (image_id img)"
    and "\<forall>j<i. \<not> idEq (thumbnailImageId (meta (ps ! j))) (image_id img)"
  shows "mergeImage lookup ps img = Inr (ps[i := linkImage img (ps ! i)])"
proof -
  have "findByThumbnail ps img = Some i"
    using assms by (simp add: findByThumbnail_Some_iff)
  then show ?thesis by (simp add: mergeImage_def answerTruthy_def)
qed

lemma mergeImage_thumbnail_kept:
  assumes "mergeImage lookup ps r = Inr ps'" and "i < length ps"
    and "\<not> idEq (thumbnailImageId (meta (ps ! i))) (image_id r)"
  shows "map_of (fm_images (frontmatter (ps' ! i))) ''thumbnail'' =
         map_of (fm_images (frontmatter (ps ! i))) ''thumbnail''"
proof -
  have a: "map_of (fm_images (frontmatter (ps[k := linkImage r (ps ! k)] ! i))) ''thumbnail'' =
        map_of (fm_images (frontmatter (ps ! i))) ''thumbnail''" for k
  proof (cases "k = i")
    case True
    then show ?thesis using assms(2,3) by (simp add: thumbnail_linkImage_other)
  next
    case False
    then show ?thesis by simp
  qed
  have b: "fm_images (frontmatter
             (ps[k := (ps ! k)\<lparr>frontmatter := (frontmatter (ps ! k))\<lparr>fm_meta := m\<rparr>\<rparr>] ! i)) =
           fm_images (frontmatter (ps ! i))" for k m
    using assms(2) by (cases "k = i") simp_all
  from mergeImage_Inr_cases[OF assms(1)] show ?thesis
    using a b by auto
qed

lemma thumbnailImageId_mergeImage:
  assumes "mergeImage lookup ps img = Inr ps'" and "i < length ps"
  shows "thumbnailImageId (meta (ps' ! i)) = thumbnailImageId (meta (ps ! i))"
proof -
  have "ids (ps' ! i) = ids (ps ! i)"
    using assms ids_mergeImage[OF assms(1)] length_mergeImage[OF assms(1)]
    by (metis nth_map)
  then show ?thesis by (simp add: ids_def)
qed

lemma mergeImages_length:
  "mergeImages lookup images ps = Inr ps' \<Longrightarrow> length ps' = length ps"
proof (induction images arbitrary: ps)
  case Nil
  then show ?case by simp
next
  case (Cons img images)
  from Cons.prems obtain ps1 where s: "mergeImage lookup ps img = Inr ps1"
    and r: "mergeImages lookup images ps1 = Inr ps'"
    by (auto split: sum.splits)
  from Cons.IH[OF r] length_mergeImage[OF s] show ?case by simp
qed

lemma mergeImages_ids:
  "mergeImages lookup images ps = Inr ps' \<Longrightarrow> map ids ps' = map ids ps"
proof (induction images arbitrary: ps)
  case Nil
  then show ?case by simp
next
  case (Cons img images)
  from Cons.prems obtain ps1 where s: "mergeImage lookup ps img = Inr ps1"
    and r: "mergeImages lookup images ps1 = Inr ps'"
    by (auto split: sum.splits)
  from Cons.IH[OF r] ids_mergeImage[OF s] show ?case by simp
qed

lemma mergeImages_append:
  "mergeImages lookup (xs @ ys) ps =
   (case mergeImages lookup xs ps of Inl e \<Rightarrow> Inl e | Inr ps1 \<Rightarrow> mergeImages lookup ys ps1)"
  by (induction xs arbitrary: ps) (auto split: sum.splits)

lemma mergeImages_thumbnail_kept:
  assumes "mergeImages lookup rest ps = Inr ps'" and "i < length ps"
    and "\<forall>r \<in> set rest. \<not> idEq (thumbnailImageId (meta (ps ! i))) (image_id r)"
  shows "map_of (fm_images (frontmatter (ps' ! i))) ''thumbnail'' =
         map_of (fm_images (frontmatter (ps ! i))) ''thumbnail''"
  using assms
proof (induction rest arbitrary: ps)
  case Nil
  then show ?case by simp
next
  case (Cons r rest)
  from Cons.prems(1) obtain ps1 where s: "mergeImage lookup ps r = Inr ps1"
    and t: "mergeImages lookup rest ps1 = Inr ps'"
    by (auto split: sum.splits)
  have len: "i < length ps1" using Cons.prems(2) length_mergeImage[OF s] by simp
  have same: "thumbnailImageId (meta (ps1 ! i)) = thumbnailImageId (meta (ps ! i))"
    using s Cons.prems(2) by (rule thumbnailImageId_mergeImage)
  have "map_of (fm_images (frontmatter (ps' ! i))) ''thumbnail'' =
        map_of (fm_images (frontmatter (ps1 ! i))) ''thumbnail''"
    using t len Cons.prems(3) by (intro Cons.IH) (simp_all add: same)
  also have "\<dots> = map_of (fm_images (frontmatter (ps ! i))) ''thumbnail''"
    using s Cons.prems(2,3) by (intro mergeImage_thumbnail_kept[of lookup ps r]) simp_all
  finally show ?case .
qed

text \<open>
  C4. An image matched to a post by its thumbnail id (the post is the earliest one whose
  \<open>thumbnailImageId\<close> equals the image's id) makes the linker set that post's
  \<open>frontmatter.images.thumbnail\<close> to \<open>./images/\<close> followed by the last \<open>/\<close>-separated segment
  of the image's URL. The step that links the image does so, without throwing, whatever
  the table and the posts were before, and the value stands at the end of a run that
  ends when no later image has the same id.
\<close>

theorem thumbnail_is_images_basename:
  "(i < length ps \<and> idEq (thumbnailImageId (meta (ps ! i))) (image_id img) \<and>
    (\<forall>j<i. \<not> idEq (thumbnailImageId (meta (ps ! j))) (image_id img))
    \<longrightarrow> (\<exists>ps'. mergeImage lookup ps img = Inr ps' \<and>
          map_of (fm_images (frontmatter (ps' ! i))) ''thumbnail'' =
            Some (JStr (''./images/'' @ lastSegment (url img))))) \<and>
   (i < length posts \<and> idEq (thumbnailImageId (meta (posts ! i))) (image_id img) \<and>
    (\<forall>j<i. \<not> idEq (thumbnailImageId (meta (posts ! j))) (image_id img)) \<and>
    (\<forall>r \<in> set rest. image_id r \<noteq> image_id img) \<and>
    mergeImagesIntoPosts (before @ img # rest) posts = Inr result
    \<longrightarrow> map_of (fm_images (frontmatter (result ! i))) ''thumbnail'' =
          Some (JStr (''./images/'' @ lastSegment (url img))))"
proof (intro conjI impI)
  assume a: "i < length ps \<and> idEq (thumbnailImageId (meta (ps ! i))) (image_id img) \<and>
    (\<forall>j<i. \<not> idEq (thumbnailImageId (meta (ps ! j))) (image_id img))"
  then have "mergeImage lookup ps img = Inr (ps[i := linkImage img (ps ! i)])"
    by (intro mergeImage_thumbnail_match) simp_all
  moreover have "map_of (fm_images (frontmatter (ps[i := linkImage img (ps ! i)] ! i)))
                   ''thumbnail'' = Some (JStr (''./images/'' @ lastSegment (url img)))"
    using a by (simp add: thumbnail_linkImage)
  ultimately show "\<exists>ps'. mergeImage lookup ps img = Inr ps' \<and>
          map_of (fm_images (frontmatter (ps' ! i))) ''thumbnail'' =
            Some (JStr (''./images/'' @ lastSegment (url img)))"
    by blast
next
  assume a: "i < length posts \<and> idEq (thumbnailImageId (meta (posts ! i))) (image_id img) \<and>
    (\<forall>j<i. \<not> idEq (thumbnailImageId (meta (posts ! j))) (image_id img)) \<and>
    (\<forall>r \<in> set rest. image_id r \<noteq> image_id img) \<and>
    mergeImagesIntoPosts (before @ img # rest) posts = Inr result"
  let ?lk = "postsLookup posts"
  from a have run: "mergeImages ?lk (before @ img # rest) posts = Inr result"
    by (simp add: mergeImagesIntoPosts_def)
  then obtain ps1 where p1: "mergeImages ?lk before posts = Inr ps1"
    and r1: "mergeImages ?lk (img # rest) ps1 = Inr result"
    by (auto simp: mergeImages_append split: sum.splits)
  from r1 obtain ps2 where p2: "mergeImage ?lk ps1 img = Inr ps2"
    and r2: "mergeImages ?lk rest ps2 = Inr result"
    by (auto split: sum.splits)
  have len1: "length ps1 = length posts" using p1 by (rule mergeImages_length)
  have ids1: "map ids ps1 = map ids posts" using p1 by (rule mergeImages_ids)
  have th1: "thumbnailImageId (meta (ps1 ! j)) = thumbnailImageId (meta (posts ! j))"
    if "j < length posts" for j
  proof -
    have "ids (ps1 ! j) = ids (posts ! j)" using that ids1 len1 by (metis nth_map)
    then show ?thesis by (simp add: ids_def)
  qed
  have i1: "i < length ps1" using a len1 by simp
  have m1: "idEq (thumbnailImageId (meta (ps1 ! i))) (image_id img)"
    using a by (simp add: th1)
  have f1: "\<forall>j<i. \<not> idEq (thumbnailImageId (meta (ps1 ! j))) (image_id img)"
    using a by (simp add: th1)
  have "mergeImage ?lk ps1 img = Inr (ps1[i := linkImage img (ps1 ! i)])"
    using i1 m1 f1 by (rule mergeImage_thumbnail_match)
  with p2 have step: "ps2 = ps1[i := linkImage img (ps1 ! i)]" by simp
  have v2: "map_of (fm_images (frontmatter (ps2 ! i))) ''thumbnail'' =
            Some (JStr (''./images/'' @ lastSegment (url img)))"
    using i1 m1 by (simp add: step thumbnail_linkImage)
  have i2: "i < length ps2" using i1 by (simp add: step)
  have th2: "thumbnailImageId (meta (ps2 ! i)) = thumbnailImageId (meta (ps1 ! i))"
    using p2 i1 by (rule thumbnailImageId_mergeImage)
  have no: "\<forall>r \<in> set rest. \<not> idEq (thumbnailImageId (meta (ps2 ! i))) (image_id r)"
  proof
    fix r assume r: "r \<in> set rest"
    show "\<not> idEq (thumbnailImageId (meta (ps2 ! i))) (image_id r)"
    proof
      assume "idEq (thumbnailImageId (meta (ps2 ! i))) (image_id r)"
      then have "image_id r = image_id img"
        using m1 th2 by (auto dest: idEq_same_id)
      then show False using a r by simp
    qed
  qed
  show "map_of (fm_images (frontmatter (result ! i))) ''thumbnail'' =
          Some (JStr (''./images/'' @ lastSegment (url img)))"
    using mergeImages_thumbnail_kept[OF r2 i2 no] v2 by simp
qed

text \<open>
  C2. Every image is linked to at most one post, its owner: the earliest post whose
  \<open>thumbnailImageId\<close> equals the image's id; if there is none, the post whose \<open>meta.id\<close> equals
  the image's \<open>postId\<close> (the lookup table keeps the last post stored under an id); if
  there is none either, the image is dropped and the posts stay as they are. The ids
  are those of an export: no post has the id \<open>__proto__\<close> and no image has for \<open>postId\<close> a
  name that every object inherits. Then the run does not throw and is the images, in
  order, each linked to its owner and changing no other post, and a post's \<open>imageUrls\<close>
  end as what they were followed by the URLs of the images it owns, in the order of the
  images.
\<close>

theorem linker_assigns_owner:
  "(owner posts img = Some i \<longleftrightarrow>
      i < length posts \<and>
      (idEq (thumbnailImageId (meta (posts ! i))) (image_id img) \<and>
       (\<forall>j<i. \<not> idEq (thumbnailImageId (meta (posts ! j))) (image_id img))
       \<or>
       (\<forall>j<length posts. \<not> idEq (thumbnailImageId (meta (posts ! j))) (image_id img)) \<and>
       meta_id (meta (posts ! i)) = postId img \<and>
       (\<forall>j<length posts. i < j \<longrightarrow> meta_id (meta (posts ! j)) \<noteq> postId img))) \<and>
   (owner posts img = None \<longleftrightarrow>
      (\<forall>j<length posts. \<not> idEq (thumbnailImageId (meta (posts ! j))) (image_id img) \<and>
                         meta_id (meta (posts ! j)) \<noteq> postId img)) \<and>
   ((\<forall>p \<in> set posts. meta_id (meta p) \<noteq> ''__proto__'') \<and>
    postId img \<notin> set objectPrototypeNames \<and> map ids ps = map ids posts \<longrightarrow>
      mergeImage (postsLookup posts) ps img =
        Inr (case owner posts img of
               None \<Rightarrow> ps
             | Some k \<Rightarrow> ps[k := linkImage img (ps ! k)])) \<and>
   ((\<forall>p \<in> set posts. meta_id (meta p) \<noteq> ''__proto__'') \<and>
    (\<forall>x \<in> set images. postId x \<notin> set objectPrototypeNames) \<longrightarrow>
      mergeImagesIntoPosts images posts =
        Inr (foldl (\<lambda>ps x. case owner posts x of
                              None \<Rightarrow> ps
                            | Some k \<Rightarrow> ps[k := linkImage x (ps ! k)]) posts images)) \<and>
   urlsOf (linkImage img p) = urlsOf p @ [url img] \<and>
   ((\<forall>p \<in> set posts. meta_id (meta p) \<noteq> ''__proto__'') \<and>
    (\<forall>x \<in> set images. postId x \<notin> set objectPrototypeNames) \<and> i < length posts \<longrightarrow>
      (\<exists>result. mergeImagesIntoPosts images posts = Inr result \<and>
         urlsOf (result ! i) =
         urlsOf (posts ! i) @ map url (filter (\<lambda>x. owner posts x = Some i) images)))"
proof (intro conjI impI)
  show "owner posts img = Some i \<longleftrightarrow>
      i < length posts \<and>
      (idEq (thumbnailImageId (meta (posts ! i))) (image_id img) \<and>
       (\<forall>j<i. \<not> idEq (thumbnailImageId (meta (posts ! j))) (image_id img))
       \<or>
       (\<forall>j<length posts. \<not> idEq (thumbnailImageId (meta (posts ! j))) (image_id img)) \<and>
       meta_id (meta (posts ! i)) = postId img \<and>
       (\<forall>j<length posts. i < j \<longrightarrow> meta_id (meta (posts ! j)) \<noteq> postId img))"
    by (rule owner_Some_iff)
  show "owner posts img = None \<longleftrightarrow>
      (\<forall>j<length posts. \<not> idEq (thumbnailImageId (meta (posts ! j))) (image_id img) \<and>
                         meta_id (meta (posts ! j)) \<noteq> postId img)"
    by (rule owner_None_iff)
  show "urlsOf (linkImage img p) = urlsOf p @ [url img]" by (rule urlsOf_linkImage)
  have fn: "assign posts = (\<lambda>ps x. case owner posts x of
                        None \<Rightarrow> ps
                      | Some k \<Rightarrow> ps[k := linkImage x (ps ! k)])"
    by (rule ext)+ (simp add: assign_def)
  {
    assume a: "(\<forall>p \<in> set posts. meta_id (meta p) \<noteq> ''__proto__'') \<and>
      postId img \<notin> set objectPrototypeNames \<and> map ids ps = map ids posts"
    then have "mergeImage (postsLookup posts) ps img = Inr (assign posts ps img)"
      by (intro mergeImage_assign) simp_all
    then show "mergeImage (postsLookup posts) ps img =
        Inr (case owner posts img of
               None \<Rightarrow> ps
             | Some k \<Rightarrow> ps[k := linkImage img (ps ! k)])"
      by (simp add: assign_def)
  }
  {
    assume a: "(\<forall>p \<in> set posts. meta_id (meta p) \<noteq> ''__proto__'') \<and>
      (\<forall>x \<in> set images. postId x \<notin> set objectPrototypeNames)"
    then have "mergeImagesIntoPosts images posts = Inr (foldl (assign posts) posts images)"
      unfolding mergeImagesIntoPosts_def by (intro mergeImages_assign) simp_all
    then show "mergeImagesIntoPosts images posts =
        Inr (foldl (\<lambda>ps x. case owner posts x of
                              None \<Rightarrow> ps
                            | Some k \<Rightarrow> ps[k := linkImage x (ps ! k)]) posts images)"
      unfolding fn .
  }
  {
    assume a: "(\<forall>p \<in> set posts. meta_id (meta p) \<noteq> ''__proto__'') \<and>
      (\<forall>x \<in> set images. postId x \<notin> set objectPrototypeNames) \<and> i < length posts"
    then have run: "mergeImagesIntoPosts images posts = Inr (foldl (assign posts) posts images)"
      unfolding mergeImagesIntoPosts_def by (intro mergeImages_assign) simp_all
    have "urlsOf (foldl (assign posts) posts images ! i) =
          urlsOf (posts ! i) @ map url (filter (\<lambda>x. owner posts x = Some i) images)"
      using a by (intro urlsOf_foldl_assign) simp
    with run show "\<exists>result. mergeImagesIntoPosts images posts = Inr result \<and>
         urlsOf (result ! i) =
         urlsOf (posts ! i) @ map url (filter (\<lambda>x. owner posts x = Some i) images)"
      by blast
  }
qed


lemma inRange_postsLookup: "inRange (length posts) (postsLookup posts)"
  by (auto simp: inRange_def own_postsLookup proto_postsLookup find_rev_upt_Some_iff
      split: if_splits)

lemma view_linkImage:
  assumes "view p = view q"
  shows "view (linkImage img p) = view (linkImage img q)"
  using assms by (simp add: view_def ids_def linkImage_def Let_def cong: if_cong)

lemma view_linkImage_IdNum:
  assumes "image_id img = IdNum n"
  shows "view (linkImage img p) = view p"
  using assms by (simp add: view_def ids_def linkImage_def Let_def idEq_IdNum cong: if_cong)

lemma linkFrontmatter_iff:
  "linkFrontmatter img fm = Inr fm' \<longleftrightarrow>
     \<not> pushThrows (fm_meta fm) \<and>
     \<not> valEq (map_of (fm_meta fm) ''thumbnailImageId'') (image_id img) \<and>
     \<not> valEq (map_of (fm_meta fm) ''featureImageId'') (image_id img) \<and>
     fm' = fm\<lparr>fm_meta := setProp (fm_meta fm) ''imageUrls''
                            (JArr (oldUrls (fm_meta fm) @ [JStr (url img)]))\<rparr>"
proof -
  define m where "m = fm_meta fm"
  define us where "us = oldUrls m"
  define m' where "m' = setProp m ''imageUrls'' (JArr (us @ [JStr (url img)]))"
  have t: "map_of m' ''thumbnailImageId'' = map_of m ''thumbnailImageId''"
    by (simp add: m'_def map_of_setProp_other)
  have f: "map_of m' ''featureImageId'' = map_of m ''featureImageId''"
    by (simp add: m'_def map_of_setProp_other)
  have urls: "(case map_of m ''imageUrls'' of None \<Rightarrow> JArr []
               | Some v \<Rightarrow> if truthy v then v else JArr []) =
              (if pushThrows m then the (map_of m ''imageUrls'') else JArr us)"
    by (auto simp: pushThrows_def us_def oldUrls_def split: option.splits jsval.splits)
  have notarr: "pushThrows m \<Longrightarrow> \<forall>xs. the (map_of m ''imageUrls'') \<noteq> JArr xs"
    by (auto simp: pushThrows_def split: option.splits jsval.splits)
  show ?thesis
  proof (cases "pushThrows m")
    case True
    from notarr[OF True] have "linkFrontmatter img fm = Inl TypeError"
      unfolding linkFrontmatter_def Let_def m_def[symmetric] urls
      by (simp add: True split: jsval.splits)
    then show ?thesis using True by (simp add: m_def)
  next
    case False
    have "linkFrontmatter img fm =
          (if valEq (map_of m ''thumbnailImageId'') (image_id img) then Inl TypeError
           else if valEq (map_of m ''featureImageId'') (image_id img) then Inl TypeError
           else Inr (fm\<lparr>fm_meta := m'\<rparr>))"
      unfolding linkFrontmatter_def Let_def m_def[symmetric] urls
      by (simp add: False m'_def[symmetric] t f)
    then show ?thesis using False
      by (auto simp: m_def m'_def us_def)
  qed
qed

lemma pushThrows_setProp: "\<not> pushThrows (setProp m ''imageUrls'' (JArr us))"
  by (simp add: pushThrows_def map_of_setProp_same)

lemma view_marked:
  assumes "linkFrontmatter img (frontmatter p) = Inr fm"
  shows "view (p\<lparr>frontmatter := fm\<rparr>) = view p"
proof -
  from assms have np: "\<not> pushThrows (fm_meta (frontmatter p))"
    and fm: "fm = (frontmatter p)\<lparr>fm_meta := setProp (fm_meta (frontmatter p)) ''imageUrls''
                    (JArr (oldUrls (fm_meta (frontmatter p)) @ [JStr (url img)]))\<rparr>"
    by (simp_all add: linkFrontmatter_iff)
  show ?thesis
    using np
    by (simp add: view_def ids_def fm pushThrows_setProp map_of_setProp_other cong: if_cong)
qed

lemma view_linkFrontmatter:
  assumes "view p = view q" and "linkFrontmatter img (frontmatter p) = Inr fm"
  shows "\<exists>fm'. linkFrontmatter img (frontmatter q) = Inr fm'"
proof -
  have m: "map_of (fm_meta (frontmatter p)) k = map_of (fm_meta (frontmatter q)) k"
    if "k \<noteq> ''imageUrls''" for k
  proof -
    have "(\<lambda>k. if k = ''imageUrls'' then None else map_of (fm_meta (frontmatter p)) k) =
          (\<lambda>k. if k = ''imageUrls'' then None else map_of (fm_meta (frontmatter q)) k)"
      using assms(1) by (simp add: view_def)
    from fun_cong[OF this, of k] show ?thesis using that by simp
  qed
  have t: "pushThrows (fm_meta (frontmatter p)) = pushThrows (fm_meta (frontmatter q))"
    using assms(1) by (simp add: view_def)
  from assms(2) have "\<not> pushThrows (fm_meta (frontmatter q)) \<and>
     \<not> valEq (map_of (fm_meta (frontmatter q)) ''thumbnailImageId'') (image_id img) \<and>
     \<not> valEq (map_of (fm_meta (frontmatter q)) ''featureImageId'') (image_id img)"
    using t m[of "''thumbnailImageId''"] m[of "''featureImageId''"]
    by (simp add: linkFrontmatter_iff)
  then show ?thesis by (simp add: linkFrontmatter_iff)
qed

lemma map_view_update:
  assumes "map view ps = map view qs" and "k < length ps \<Longrightarrow> view x = view y"
  shows "map view (ps[k := x]) = map view (qs[k := y])"
proof -
  have len: "length ps = length qs" using assms(1) by (rule map_eq_imp_length_eq)
  show ?thesis
  proof (cases "k < length ps")
    case True
    then show ?thesis using assms by (simp add: map_update)
  next
    case False
    then have "length ps \<le> k" "length qs \<le> k" using len by simp_all
    then show ?thesis using assms(1) by (simp add: list_update_beyond)
  qed
qed

lemma map_view_nth:
  assumes "map view ps = map view qs" and "k < length ps"
  shows "view (ps ! k) = view (qs ! k)"
  using assms by (metis length_map nth_map)

lemma map_view_ids:
  assumes "map view ps = map view qs"
  shows "map ids ps = map ids qs"
proof -
  have "map ids ps = map fst (map view ps)" by (simp add: view_def)
  also have "\<dots> = map fst (map view qs)" using assms by simp
  also have "\<dots> = map ids qs" by (simp add: view_def)
  finally show ?thesis .
qed

lemma getEntry_inRange:
  assumes "inRange n t"
  shows "getEntry t k = APost i \<Longrightarrow> i < n" and "getEntry t k = AFrontmatter i \<Longrightarrow> i < n"
    and "getEntry t k = AContent i \<Longrightarrow> i < n"
  using assms by (auto simp: getEntry_def inRange_def split: option.splits if_splits)

text \<open>An image of id \<open>-1\<close>, linked without an exception, leaves the view of every post.\<close>

lemma view_mergeImage_scraped:
  assumes "mergeImage lookup ps img = Inr ps'" and "image_id img = IdNum n"
  shows "map view ps' = map view ps"
proof -
  have a: "map view (ps[k := linkImage img (ps ! k)]) = map view ps" for k
    by (rule map_update_same) (rule view_linkImage_IdNum[OF assms(2)])
  have b: "map view (ps[k := (ps ! k)\<lparr>frontmatter := fm\<rparr>]) = map view ps"
    if "linkFrontmatter img (frontmatter (ps ! k)) = Inr fm" for k fm
    by (rule map_update_same) (rule view_marked[OF that])
  from mergeImage_Inr_cases[OF assms(1)] show ?thesis
    using a b by auto
qed

text \<open>On posts of the same view, a step throws on both sides or on neither.\<close>

lemma view_mergeImage:
  assumes "map view ps = map view qs" and "inRange (length ps) lookup"
    and "mergeImage lookup ps img = Inr ps'"
  shows "\<exists>qs'. mergeImage lookup qs img = Inr qs' \<and> map view ps' = map view qs'"
proof -
  have len: "length ps = length qs" using assms(1) by (rule map_eq_imp_length_eq)
  have found: "findByThumbnail ps img = findByThumbnail qs img"
    using assms(1) by (intro findByThumbnail_ids map_view_ids)
  define a where "a = (case findByThumbnail ps img of
                         Some i \<Rightarrow> APost i
                       | None \<Rightarrow> getEntry lookup (postId img))"
  have lhs: "mergeImage lookup ps img =
      (if answerTruthy ps a then
         (case a of
            APost i \<Rightarrow> Inr (ps[i := linkImage img (ps ! i)])
          | AFrontmatter i \<Rightarrow>
              (case linkFrontmatter img (frontmatter (ps ! i)) of
                 Inl e \<Rightarrow> Inl e
               | Inr fm \<Rightarrow> Inr (ps[i := (ps ! i)\<lparr>frontmatter := fm\<rparr>]))
          | _ \<Rightarrow> Inl TypeError)
       else Inr ps)"
    by (simp add: mergeImage_def a_def)
  have rhs: "mergeImage lookup qs img =
      (if answerTruthy qs a then
         (case a of
            APost i \<Rightarrow> Inr (qs[i := linkImage img (qs ! i)])
          | AFrontmatter i \<Rightarrow>
              (case linkFrontmatter img (frontmatter (qs ! i)) of
                 Inl e \<Rightarrow> Inl e
               | Inr fm \<Rightarrow> Inr (qs[i := (qs ! i)\<lparr>frontmatter := fm\<rparr>]))
          | _ \<Rightarrow> Inl TypeError)
       else Inr qs)"
    by (simp add: mergeImage_def a_def found)
  show ?thesis
  proof (cases a)
    case (APost i)
    have "map view (ps[i := linkImage img (ps ! i)]) = map view (qs[i := linkImage img (qs ! i)])"
      using assms(1)
      by (intro map_view_update) (auto intro: view_linkImage map_view_nth)
    then show ?thesis
      using assms(3) by (simp add: lhs rhs APost answerTruthy_def)
  next
    case (AFrontmatter i)
    have ge: "getEntry lookup (postId img) = AFrontmatter i"
      using AFrontmatter by (auto simp: a_def split: option.splits)
    have i: "i < length ps" using getEntry_inRange(2)[OF assms(2) ge] .
    have v: "view (ps ! i) = view (qs ! i)" using assms(1) i by (rule map_view_nth)
    from assms(3) obtain fm where fm: "linkFrontmatter img (frontmatter (ps ! i)) = Inr fm"
      and ps': "ps' = ps[i := (ps ! i)\<lparr>frontmatter := fm\<rparr>]"
      by (auto simp: lhs AFrontmatter answerTruthy_def split: sum.splits)
    from view_linkFrontmatter[OF v fm] obtain fm' where
      fm': "linkFrontmatter img (frontmatter (qs ! i)) = Inr fm'" by blast
    have "view ((ps ! i)\<lparr>frontmatter := fm\<rparr>) = view ((qs ! i)\<lparr>frontmatter := fm'\<rparr>)"
      using view_marked[OF fm] view_marked[OF fm'] v by simp
    then have "map view ps' = map view (qs[i := (qs ! i)\<lparr>frontmatter := fm'\<rparr>])"
      unfolding ps' using assms(1) by (intro map_view_update) simp_all
    then show ?thesis
      by (simp add: rhs AFrontmatter answerTruthy_def fm')
  next
    case (AContent i)
    have ge: "getEntry lookup (postId img) = AContent i"
      using AContent by (auto simp: a_def split: option.splits)
    have i: "i < length ps" using getEntry_inRange(3)[OF assms(2) ge] .
    have "view (ps ! i) = view (qs ! i)" using assms(1) i by (rule map_view_nth)
    then have "content (ps ! i) = content (qs ! i)" by (simp add: view_def)
    then show ?thesis
      using assms(1,3) by (auto simp: lhs rhs AContent answerTruthy_def split: if_splits)
  next
    case (AMeta i)
    then show ?thesis using assms(3) by (simp add: lhs answerTruthy_def)
  next
    case AnInherited
    then show ?thesis using assms(3) by (simp add: lhs answerTruthy_def)
  next
    case AnUndefined
    then show ?thesis using assms(1,3) by (simp add: lhs rhs answerTruthy_def)
  qed
qed

lemma view_mergeImages_filter:
  assumes "map view ps = map view qs" and "inRange (length ps) lookup"
    and "mergeImages lookup images ps = Inr ps'"
  shows "\<exists>qs'. mergeImages lookup (filter (\<lambda>x. image_id x \<noteq> IdNum (- 1)) images) qs = Inr qs'
               \<and> map view ps' = map view qs'"
  using assms
proof (induction images arbitrary: ps qs)
  case Nil
  then show ?case by simp
next
  case (Cons img images)
  from Cons.prems(3) obtain ps1 where s: "mergeImage lookup ps img = Inr ps1"
    and r: "mergeImages lookup images ps1 = Inr ps'"
    by (auto split: sum.splits)
  have len1: "length ps1 = length ps" using s by (rule length_mergeImage)
  show ?case
  proof (cases "image_id img = IdNum (- 1)")
    case True
    have "map view ps1 = map view qs"
      using view_mergeImage_scraped[OF s True] Cons.prems(1) by simp
    then show ?thesis
      using Cons.IH[of ps1 qs] Cons.prems(2) r len1 True by simp
  next
    case False
    from view_mergeImage[OF Cons.prems(1,2) s] obtain qs1 where
      t: "mergeImage lookup qs img = Inr qs1" and v: "map view ps1 = map view qs1" by blast
    from Cons.IH[of ps1 qs1] v Cons.prems(2) r len1
    obtain qs' where
      "mergeImages lookup (filter (\<lambda>x. image_id x \<noteq> IdNum (- 1)) images) qs1 = Inr qs'"
      "map view ps' = map view qs'" by auto
    then show ?thesis using False t by simp
  qed
qed

lemma map_view_images:
  assumes "map view ps = map view qs"
  shows "map (\<lambda>p. fm_images (frontmatter p)) ps = map (\<lambda>p. fm_images (frontmatter p)) qs"
proof -
  have "map (\<lambda>p. fm_images (frontmatter p)) ps = map (\<lambda>v. fst (snd (snd v))) (map view ps)"
    by (simp add: view_def)
  also have "\<dots> = map (\<lambda>v. fst (snd (snd v))) (map view qs)" using assms by simp
  also have "\<dots> = map (\<lambda>p. fm_images (frontmatter p)) qs" by (simp add: view_def)
  finally show ?thesis .
qed

text \<open>
  The linker changes of a frontmatter the \<open>images\<close> and, through the key \<open>frontmatter\<close> of
  the table only, the \<open>meta\<close>.
\<close>

lemma fixedPart_linkImage: "fixedPart (frontmatter (linkImage img p)) = fixedPart (frontmatter p)"
  by (simp add: fixedPart_def linkImage_def Let_def)

lemma fm_meta_linkImage: "fm_meta (frontmatter (linkImage img p)) = fm_meta (frontmatter p)"
  by (simp add: linkImage_def Let_def)

lemma fixedPart_mergeImage:
  assumes "mergeImage lookup ps img = Inr ps'"
  shows "map (\<lambda>p. fixedPart (frontmatter p)) ps' = map (\<lambda>p. fixedPart (frontmatter p)) ps"
proof -
  have a: "map (\<lambda>p. fixedPart (frontmatter p)) (ps[k := linkImage img (ps ! k)]) =
           map (\<lambda>p. fixedPart (frontmatter p)) ps" for k
    by (rule map_update_same) (rule fixedPart_linkImage)
  have b: "map (\<lambda>p. fixedPart (frontmatter p))
             (ps[k := (ps ! k)\<lparr>frontmatter := (frontmatter (ps ! k))\<lparr>fm_meta := m\<rparr>\<rparr>]) =
           map (\<lambda>p. fixedPart (frontmatter p)) ps" for k m
    by (rule map_update_same) (simp add: fixedPart_def)
  from mergeImage_Inr_cases[OF assms] show ?thesis using a b by auto
qed

lemma fm_meta_mergeImage:
  assumes "mergeImage lookup ps img = Inr ps'" and "postId img \<noteq> ''frontmatter''"
  shows "map (\<lambda>p. fm_meta (frontmatter p)) ps' = map (\<lambda>p. fm_meta (frontmatter p)) ps"
proof -
  have a: "map (\<lambda>p. fm_meta (frontmatter p)) (ps[k := linkImage img (ps ! k)]) =
           map (\<lambda>p. fm_meta (frontmatter p)) ps" for k
    by (rule map_update_same) (rule fm_meta_linkImage)
  from mergeImage_Inr_cases[OF assms(1)] show ?thesis using a assms(2) by auto
qed

lemma fixedPart_mergeImages:
  "mergeImages lookup images ps = Inr ps' \<Longrightarrow>
   map (\<lambda>p. fixedPart (frontmatter p)) ps' = map (\<lambda>p. fixedPart (frontmatter p)) ps"
proof (induction images arbitrary: ps)
  case Nil
  then show ?case by simp
next
  case (Cons img images)
  from Cons.prems obtain ps1 where s: "mergeImage lookup ps img = Inr ps1"
    and r: "mergeImages lookup images ps1 = Inr ps'"
    by (auto split: sum.splits)
  from Cons.IH[OF r] fixedPart_mergeImage[OF s] show ?case by simp
qed

lemma fm_meta_mergeImages:
  "mergeImages lookup images ps = Inr ps' \<Longrightarrow> \<forall>x \<in> set images. postId x \<noteq> ''frontmatter'' \<Longrightarrow>
   map (\<lambda>p. fm_meta (frontmatter p)) ps' = map (\<lambda>p. fm_meta (frontmatter p)) ps"
proof (induction images arbitrary: ps)
  case Nil
  then show ?case by simp
next
  case (Cons img images)
  from Cons.prems(1) obtain ps1 where s: "mergeImage lookup ps img = Inr ps1"
    and r: "mergeImages lookup images ps1 = Inr ps'"
    by (auto split: sum.splits)
  have "map (\<lambda>p. fm_meta (frontmatter p)) ps' = map (\<lambda>p. fm_meta (frontmatter p)) ps1"
    using r Cons.prems(2) by (intro Cons.IH) simp_all
  also have "\<dots> = map (\<lambda>p. fm_meta (frontmatter p)) ps"
    using s Cons.prems(2) by (intro fm_meta_mergeImage[of lookup ps img]) simp_all
  finally show ?case .
qed

lemma frontmatter_parts:
  assumes "fixedPart a = fixedPart b" and "fm_images a = fm_images b" and "fm_meta a = fm_meta b"
  shows "a = b"
proof -
  have "a = (fixedPart a)\<lparr>fm_images := fm_images a, fm_meta := fm_meta a\<rparr>"
    by (simp add: fixedPart_def)
  also have "\<dots> = (fixedPart b)\<lparr>fm_images := fm_images b, fm_meta := fm_meta b\<rparr>"
    using assms by simp
  also have "\<dots> = b" by (simp add: fixedPart_def)
  finally show ?thesis .
qed

lemma map_frontmatter_parts:
  assumes "map (\<lambda>p. fixedPart (frontmatter p)) ps = map (\<lambda>p. fixedPart (frontmatter p)) qs"
    and "map (\<lambda>p. fm_images (frontmatter p)) ps = map (\<lambda>p. fm_images (frontmatter p)) qs"
    and "map (\<lambda>p. fm_meta (frontmatter p)) ps = map (\<lambda>p. fm_meta (frontmatter p)) qs"
  shows "map frontmatter ps = map frontmatter qs"
proof (rule nth_equalityI)
  show len: "length (map frontmatter ps) = length (map frontmatter qs)"
    using assms(1) by (metis length_map)
  fix i assume "i < length (map frontmatter ps)"
  then have i: "i < length ps" "i < length qs" using len by simp_all
  have "fixedPart (frontmatter (ps ! i)) = fixedPart (frontmatter (qs ! i))"
    using assms(1) i by (metis (mono_tags, lifting) nth_map)
  moreover have "fm_images (frontmatter (ps ! i)) = fm_images (frontmatter (qs ! i))"
    using assms(2) i by (metis (mono_tags, lifting) nth_map)
  moreover have "fm_meta (frontmatter (ps ! i)) = fm_meta (frontmatter (qs ! i))"
    using assms(3) i by (metis (mono_tags, lifting) nth_map)
  ultimately have "frontmatter (ps ! i) = frontmatter (qs ! i)" by (rule frontmatter_parts)
  then show "map frontmatter ps ! i = map frontmatter qs ! i" using i by simp
qed

lemma frontmatter_linkImage_unchanged:
  assumes "\<not> idEq (thumbnailImageId (meta p)) (image_id img)"
    and "\<not> idEq (featureImageId (meta p)) (image_id img)"
  shows "frontmatter (linkImage img p) = frontmatter p"
  using assms by (simp add: linkImage_def Let_def)

lemma addMatches_ids:
  assumes "addMatches L pid postLink ms imgs0 = Inr imgs" and "img \<in> set imgs"
  shows "img \<in> set imgs0 \<or> image_id img = IdNum (- 1)"
  using assms
proof (induction ms arbitrary: imgs0)
  case Nil
  then show ?case by simp
next
  case (Cons m ms)
  from Cons.prems(1) obtain u where u: "resolveUrl L m postLink = Inr u"
    by (auto split: sum.splits)
  let ?new = "\<lparr>image_id = IdNum (- 1), postId = pid, url = u\<rparr>"
  show ?case
  proof (cases "list_ex (\<lambda>image. postId image = pid \<and> url image = u) imgs0")
    case True
    then have "addMatches L pid postLink ms imgs0 = Inr imgs"
      using Cons.prems(1) u by simp
    then show ?thesis using Cons.IH Cons.prems(2) by blast
  next
    case False
    then have "addMatches L pid postLink ms (imgs0 @ [?new]) = Inr imgs"
      using Cons.prems(1) u by simp
    then have "img \<in> set (imgs0 @ [?new]) \<or> image_id img = IdNum (- 1)"
      using Cons.IH Cons.prems(2) by blast
    then show ?thesis by auto
  qed
qed

lemma addContentImagesLoop_ids:
  assumes "addContentImagesLoop L ps imgs0 = Inr imgs" and "img \<in> set imgs"
  shows "img \<in> set imgs0 \<or> image_id img = IdNum (- 1)"
  using assms
proof (induction ps arbitrary: imgs0)
  case Nil
  then show ?case by simp
next
  case (Cons p ps)
  from Cons.prems(1) obtain imgs1 where
    m: "addMatches L (post_id p) (link p) (imgSrcMatches L (encoded_body p)) imgs0 = Inr imgs1"
    and r: "addContentImagesLoop L ps imgs1 = Inr imgs"
    by (auto split: sum.splits)
  from Cons.IH[OF r Cons.prems(2)] have "img \<in> set imgs1 \<or> image_id img = IdNum (- 1)" .
  then show ?case using addMatches_ids[OF m] by blast
qed

text \<open>
  C1. An image with id \<open>-1\<close> never sets a post's \<open>frontmatter.images.thumbnail\<close> or
  \<open>.feature\<close>, whatever its URL: the step that links it leaves the \<open>images\<close> of every
  frontmatter as they were (and the whole frontmatter, unless the image's \<open>postId\<close> is the
  key \<open>frontmatter\<close>), and when a run ends, the run without the images of id \<open>-1\<close> ends too,
  with the same \<open>images\<close> in every frontmatter (and the same frontmatters, when no image
  has the \<open>postId\<close> \<open>frontmatter\<close>). Linking an image to a post changes the frontmatter only
  when the image's id is a string, and every image that \<open>addContentImages\<close> adds has id
  \<open>-1\<close>.
\<close>

theorem scraped_images_never_cover:
  "(image_id img = IdNum (- 1) \<and> mergeImage lookup ps img = Inr ps'
      \<longrightarrow> map (\<lambda>p. fm_images (frontmatter p)) ps' = map (\<lambda>p. fm_images (frontmatter p)) ps) \<and>
   (image_id img = IdNum (- 1) \<and> postId img \<noteq> ''frontmatter'' \<and>
    mergeImage lookup ps img = Inr ps'
      \<longrightarrow> map frontmatter ps' = map frontmatter ps) \<and>
   (mergeImagesIntoPosts images posts = Inr result
      \<longrightarrow> (\<exists>result'.
             mergeImagesIntoPosts (filter (\<lambda>x. image_id x \<noteq> IdNum (- 1)) images) posts =
               Inr result' \<and>
             map (\<lambda>p. fm_images (frontmatter p)) result =
               map (\<lambda>p. fm_images (frontmatter p)) result' \<and>
             ((\<forall>x \<in> set images. postId x \<noteq> ''frontmatter'')
                \<longrightarrow> map frontmatter result = map frontmatter result'))) \<and>
   (frontmatter (linkImage img p) \<noteq> frontmatter p \<longrightarrow> (\<exists>s. image_id img = IdStr s)) \<and>
   (addContentImages L data given = Inr imgs \<and> x \<in> set imgs \<and> x \<notin> set given
      \<longrightarrow> image_id x = IdNum (- 1))"
proof (intro conjI impI)
  assume a: "image_id img = IdNum (- 1) \<and> mergeImage lookup ps img = Inr ps'"
  then have "map view ps' = map view ps"
    by (intro view_mergeImage_scraped[of lookup ps img]) simp_all
  then show "map (\<lambda>p. fm_images (frontmatter p)) ps' = map (\<lambda>p. fm_images (frontmatter p)) ps"
    by (rule map_view_images)
next
  assume a: "image_id img = IdNum (- 1) \<and> postId img \<noteq> ''frontmatter'' \<and>
    mergeImage lookup ps img = Inr ps'"
  then have "map view ps' = map view ps"
    by (intro view_mergeImage_scraped[of lookup ps img]) simp_all
  then have i: "map (\<lambda>p. fm_images (frontmatter p)) ps' = map (\<lambda>p. fm_images (frontmatter p)) ps"
    by (rule map_view_images)
  have f: "map (\<lambda>p. fixedPart (frontmatter p)) ps' = map (\<lambda>p. fixedPart (frontmatter p)) ps"
    using a by (intro fixedPart_mergeImage[of lookup ps img]) simp
  have m: "map (\<lambda>p. fm_meta (frontmatter p)) ps' = map (\<lambda>p. fm_meta (frontmatter p)) ps"
    using a by (intro fm_meta_mergeImage[of lookup ps img]) simp_all
  show "map frontmatter ps' = map frontmatter ps"
    using f i m by (rule map_frontmatter_parts)
next
  assume run: "mergeImagesIntoPosts images posts = Inr result"
  let ?kept = "filter (\<lambda>x. image_id x \<noteq> IdNum (- 1)) images"
  have r: "mergeImages (postsLookup posts) images posts = Inr result"
    using run by (simp add: mergeImagesIntoPosts_def)
  from view_mergeImages_filter[OF refl inRange_postsLookup r]
  obtain result' where r': "mergeImages (postsLookup posts) ?kept posts = Inr result'"
    and v: "map view result = map view result'" by blast
  have i: "map (\<lambda>p. fm_images (frontmatter p)) result =
           map (\<lambda>p. fm_images (frontmatter p)) result'"
    using v by (rule map_view_images)
  have full: "map frontmatter result = map frontmatter result'"
    if no: "\<forall>x \<in> set images. postId x \<noteq> ''frontmatter''"
  proof -
    have "map (\<lambda>p. fixedPart (frontmatter p)) result = map (\<lambda>p. fixedPart (frontmatter p)) posts"
      using r by (rule fixedPart_mergeImages)
    moreover have "map (\<lambda>p. fixedPart (frontmatter p)) result' =
                   map (\<lambda>p. fixedPart (frontmatter p)) posts"
      using r' by (rule fixedPart_mergeImages)
    ultimately have f: "map (\<lambda>p. fixedPart (frontmatter p)) result =
                        map (\<lambda>p. fixedPart (frontmatter p)) result'" by simp
    have "map (\<lambda>p. fm_meta (frontmatter p)) result = map (\<lambda>p. fm_meta (frontmatter p)) posts"
      using r no by (rule fm_meta_mergeImages)
    moreover have "map (\<lambda>p. fm_meta (frontmatter p)) result' =
                   map (\<lambda>p. fm_meta (frontmatter p)) posts"
      using r' no by (intro fm_meta_mergeImages[of "postsLookup posts" ?kept]) simp_all
    ultimately have m: "map (\<lambda>p. fm_meta (frontmatter p)) result =
                        map (\<lambda>p. fm_meta (frontmatter p)) result'" by simp
    show ?thesis using f i m by (rule map_frontmatter_parts)
  qed
  show "\<exists>result'.
             mergeImagesIntoPosts (filter (\<lambda>x. image_id x \<noteq> IdNum (- 1)) images) posts =
               Inr result' \<and>
             map (\<lambda>p. fm_images (frontmatter p)) result =
               map (\<lambda>p. fm_images (frontmatter p)) result' \<and>
             ((\<forall>x \<in> set images. postId x \<noteq> ''frontmatter'')
                \<longrightarrow> map frontmatter result = map frontmatter result')"
    using r' i full by (auto simp: mergeImagesIntoPosts_def)
next
  assume ch: "frontmatter (linkImage img p) \<noteq> frontmatter p"
  show "\<exists>s. image_id img = IdStr s"
  proof (cases "image_id img")
    case (IdStr s)
    then show ?thesis by blast
  next
    case (IdNum n)
    then have "frontmatter (linkImage img p) = frontmatter p"
      by (intro frontmatter_linkImage_unchanged) (simp_all add: idEq_IdNum)
    with ch show ?thesis by simp
  qed
next
  assume "addContentImages L data given = Inr imgs \<and> x \<in> set imgs \<and> x \<notin> set given"
  then show "image_id x = IdNum (- 1)"
    unfolding addContentImages_def using addContentImagesLoop_ids by blast
qed


section \<open>Paths and file names\<close>

lemma test_path_post_modes:
  "test_path_post ''path''" "test_path_post ''post''"
  "\<not> test_path_post ''year''" "\<not> test_path_post ''yearmonth''"
  by (simp_all add: test_path_post_def startsWith_def)

text \<open>
  C5. The directory of a post is chosen by the layout mode alone. \<open>year\<close>: the base joined
  with the year of the post's date (\<open>toFormat('yyyy')\<close>), the same for two posts of the
  same date whatever their slug and path. \<open>yearmonth\<close>: the base, the year and the month
  (\<open>toFormat('LL')\<close>). \<open>path\<close>: the base, \<open>drafts\<close> and the slug for a draft, the base and
  the post's path otherwise. \<open>post\<close>: the base and the slug, the slug prefixed with the
  date (\<open>toFormat('yyyy-LL-dd')\<close>) and a hyphen when \<open>prefixdate\<close> is set. Any other mode:
  the base, as it is.
\<close>

theorem getPostDir_by_mode:
  "(folders args = ''year'' \<longrightarrow>
      getPostDir L args p =
        path_join L [output_arg args, toFormat L (fm_date (frontmatter p)) ''yyyy'']) \<and>
   (folders args = ''year'' \<and> fm_date (frontmatter p) = fm_date (frontmatter q) \<longrightarrow>
      getPostDir L args p = getPostDir L args q) \<and>
   (folders args = ''yearmonth'' \<longrightarrow>
      getPostDir L args p =
        path_join L [output_arg args, toFormat L (fm_date (frontmatter p)) ''yyyy'',
                     toFormat L (fm_date (frontmatter p)) ''LL'']) \<and>
   (folders args = ''path'' \<and> status (meta p) = ''draft'' \<longrightarrow>
      getPostDir L args p = path_join L [output_arg args, ''drafts'', slug (meta p)]) \<and>
   (folders args = ''path'' \<and> status (meta p) \<noteq> ''draft'' \<longrightarrow>
      getPostDir L args p = path_join L [output_arg args, path (meta p)]) \<and>
   (folders args = ''post'' \<and> \<not> prefixdate args \<longrightarrow>
      getPostDir L args p = path_join L [output_arg args, slug (meta p)]) \<and>
   (folders args = ''post'' \<and> prefixdate args \<longrightarrow>
      getPostDir L args p =
        path_join L [output_arg args,
                     toFormat L (fm_date (frontmatter p)) ''yyyy-LL-dd'' @ ''-'' @ slug (meta p)]) \<and>
   (folders args \<notin> {''year'', ''yearmonth'', ''path'', ''post''} \<longrightarrow>
      getPostDir L args p = output_arg args)"
  by (simp add: getPostDir_def Let_def)

text \<open>
  C6. Under the modes \<open>path\<close> and \<open>post\<close> the file name is \<open>index.md\<close>, or the slug and
  \<open>.md\<close> when \<open>namedfiles\<close> is set; under the modes \<open>year\<close> and \<open>yearmonth\<close> it is the slug
  and \<open>.md\<close>, prefixed with the date (\<open>toFormat('yyyy-LL-dd')\<close>) and a hyphen when
  \<open>prefixdate\<close> is set. The slug of a collected post is the item's \<open>post_name\<close>, or its
  \<open>post_id\<close> when the name is empty; so a post with an empty name, under mode \<open>post\<close>
  without \<open>namedfiles\<close>, has the slug of its id and the file name \<open>index.md\<close>.
\<close>

theorem getPostFilename_by_mode:
  "(folders args \<in> {''path'', ''post''} \<longrightarrow>
      getPostFilename L args p =
        (if namedfiles args then slug (meta p) @ ''.md'' else ''index.md'')) \<and>
   (folders args \<in> {''year'', ''yearmonth''} \<longrightarrow>
      getPostFilename L args p =
        (if prefixdate args
         then toFormat L (fm_date (frontmatter p)) ''yyyy-LL-dd'' @ ''-'' @ slug (meta p) @ ''.md''
         else slug (meta p) @ ''.md'')) \<and>
   (collectPost L args authors it = Inr p \<longrightarrow>
      slug (meta p) = (if post_name it = [] then post_id it else post_name it)) \<and>
   (collectPost L args authors it = Inr p \<and> post_name it = [] \<and> folders args = ''post'' \<and>
    \<not> namedfiles args \<longrightarrow>
      slug (meta p) = post_id it \<and> getPostFilename L args p = ''index.md'')"
proof (intro conjI impI)
  assume "folders args \<in> {''path'', ''post''}"
  then have "test_path_post (folders args)"
    using test_path_post_modes by auto
  then show "getPostFilename L args p =
        (if namedfiles args then slug (meta p) @ ''.md'' else ''index.md'')"
    by (simp add: getPostFilename_def)
next
  assume "folders args \<in> {''year'', ''yearmonth''}"
  then have "\<not> test_path_post (folders args)"
    using test_path_post_modes by auto
  then show "getPostFilename L args p =
        (if prefixdate args
         then toFormat L (fm_date (frontmatter p)) ''yyyy-LL-dd'' @ ''-'' @ slug (meta p) @ ''.md''
         else slug (meta p) @ ''.md'')"
    by (simp add: getPostFilename_def)
next
  assume "collectPost L args authors it = Inr p"
  then show "slug (meta p) = (if post_name it = [] then post_id it else post_name it)"
    by (auto simp: collectPost_def getPostSlug_def Let_def split: sum.splits)
next
  assume a: "collectPost L args authors it = Inr p \<and> post_name it = [] \<and>
             folders args = ''post'' \<and> \<not> namedfiles args"
  then show "slug (meta p) = post_id it"
    by (auto simp: collectPost_def getPostSlug_def Let_def split: sum.splits)
  show "getPostFilename L args p = ''index.md''"
    using a test_path_post_modes(2) by (simp add: getPostFilename_def)
qed

section \<open>Authors\<close>

lemma error_is_TypeError: "(e :: error) = TypeError"
  by (cases e)

lemma getAuthorName_unknown:
  "ident \<notin> author_id ` set authors \<Longrightarrow> getAuthorName authors ident = Inl TypeError"
proof -
  assume "ident \<notin> author_id ` set authors"
  then have "List.find (\<lambda>item. author_id item = ident) authors = None"
    by (auto simp: find_None_iff)
  then show ?thesis by (simp add: getAuthorName_def)
qed

lemma getAuthorName_first:
  assumes "authors = pre @ a # rest" and "author_id a = ident"
    and "ident \<notin> author_id ` set pre"
  shows "getAuthorName authors ident = Inr (name a)"
proof -
  have "List.find (\<lambda>item. author_id item = ident) (pre @ a # rest) = Some a"
    using assms(2,3) by (induction pre) auto
  then show ?thesis by (simp add: getAuthorName_def assms(1))
qed

lemma getAuthorName_Inr:
  assumes "getAuthorName authors ident = Inr n"
  shows "\<exists>a \<in> set authors. author_id a = ident \<and> n = name a"
proof -
  from assms obtain a where a: "List.find (\<lambda>item. author_id item = ident) authors = Some a"
    and n: "n = name a"
    by (auto simp: getAuthorName_def split: option.splits)
  from a have "a \<in> set authors \<and> author_id a = ident"
    by (auto simp: find_Some_iff)
  with n show ?thesis by blast
qed

lemma mapPosts_error:
  assumes "x \<in> set xs" and "f x = Inl TypeError"
  shows "mapPosts f xs = Inl TypeError"
  using assms
proof (induction xs)
  case Nil
  then show ?case by simp
next
  case (Cons y ys)
  show ?case
  proof (cases "f y")
    case (Inl e)
    then show ?thesis by (simp add: error_is_TypeError[of e])
  next
    case (Inr b)
    then have "x \<in> set ys" using Cons.prems by auto
    then have "mapPosts f ys = Inl TypeError" using Cons by simp
    then show ?thesis by (simp add: Inr)
  qed
qed

lemma collectPost_unknown:
  "creator it \<notin> author_id ` set authors \<Longrightarrow> collectPost L args authors it = Inl TypeError"
  by (simp add: collectPost_def Let_def getPostAuthor_def getAuthorName_unknown)

lemma collectPosts_unknown:
  assumes "it \<in> set data" and "post_type it = ''post''" and "passesFilter L args it"
    and "creator it \<notin> author_id ` set authors"
  shows "collectPosts L args data authors = Inl TypeError"
  unfolding collectPosts_def
proof (rule mapPosts_error)
  show "it \<in> set (filter (\<lambda>p. passesFilter L args p) (getItemsOfType data ''post''))"
    using assms(1-3) by (simp add: getItemsOfType_def)
  show "collectPost L args authors it = Inl TypeError"
    using assms(4) by (rule collectPost_unknown)
qed

text \<open>
  C7. Resolving the author of a post whose author id is the id of no extracted author
  fails: \<open>getAuthorName\<close> throws, no name is put in its place, building the post fails,
  \<open>collectPosts\<close> fails as soon as the post is among those it builds, and the run ends
  there without writing anything. For a known id the name is the display name of the
  author with that id (the first one, should several share it).
\<close>

theorem unknown_author_fails:
  "(ident \<notin> author_id ` set authors \<longrightarrow> getAuthorName authors ident = Inl TypeError) \<and>
   (authors = pre @ a # rest \<and> author_id a = ident \<and> ident \<notin> author_id ` set pre \<longrightarrow>
      getAuthorName authors ident = Inr (name a)) \<and>
   (creator it \<notin> author_id ` set authors \<longrightarrow> collectPost L args authors it = Inl TypeError) \<and>
   (collectPost L args authors it = Inr p \<longrightarrow>
      (\<exists>b \<in> set authors. author_id b = creator it \<and> fm_author (frontmatter p) = name b)) \<and>
   (it \<in> set data \<and> post_type it = ''post'' \<and> passesFilter L args it \<and>
    creator it \<notin> author_login ` set channel_authors \<longrightarrow>
      collectPosts L args data (collectAuthors channel_authors) = Inl TypeError \<and>
      processData L args data channel_authors = Inl TypeError)"
proof (intro conjI impI)
  assume "ident \<notin> author_id ` set authors"
  then show "getAuthorName authors ident = Inl TypeError" by (rule getAuthorName_unknown)
next
  assume "authors = pre @ a # rest \<and> author_id a = ident \<and> ident \<notin> author_id ` set pre"
  then show "getAuthorName authors ident = Inr (name a)"
    by (intro getAuthorName_first[of authors pre a rest]) simp_all
next
  assume "creator it \<notin> author_id ` set authors"
  then show "collectPost L args authors it = Inl TypeError" by (rule collectPost_unknown)
next
  assume "collectPost L args authors it = Inr p"
  then obtain n where n: "getAuthorName authors (creator it) = Inr n"
    and f: "fm_author (frontmatter p) = n"
    by (auto simp: collectPost_def Let_def getPostAuthor_def split: sum.splits)
  from getAuthorName_Inr[OF n] f
  show "\<exists>b \<in> set authors. author_id b = creator it \<and> fm_author (frontmatter p) = name b"
    by auto
next
  assume a: "it \<in> set data \<and> post_type it = ''post'' \<and> passesFilter L args it \<and>
    creator it \<notin> author_login ` set channel_authors"
  have ids: "author_id ` set (collectAuthors channel_authors) = author_login ` set channel_authors"
    by (auto simp: collectAuthors_def image_iff)
  have c: "collectPosts L args data (collectAuthors channel_authors) = Inl TypeError"
    using a by (intro collectPosts_unknown[of it]) (simp_all add: ids)
  then show "collectPosts L args data (collectAuthors channel_authors) = Inl TypeError" .
  show "processData L args data channel_authors = Inl TypeError"
    by (simp add: processData_def c Let_def error_is_TypeError split: sum.splits)
qed


section \<open>The stagger of the image requests\<close>

lemma scheduled_append: "scheduled (es @ fs) = scheduled es @ scheduled fs"
  by (induction es rule: scheduled.induct) auto

lemma writeImages_staggered:
  "staggered st \<Longrightarrow> staggered (writeImages L postDir urls st)"
proof (induction urls arbitrary: st)
  case Nil
  then show ?case by simp
next
  case (Cons u urls)
  obtain d effs where st: "st = (d, effs)" by (cases st)
  let ?st' = "(d + 25, effs @ [CreateDir (path_join L [postDir, ''images'']),
                 writeImageFile L u (path_join L [postDir, ''images'']) d])"
  have "staggered ?st'"
    using Cons.prems
    by (simp add: staggered_def st scheduled_append writeImageFile_def Let_def)
  then have "staggered (writeImages L postDir urls ?st')" by (rule Cons.IH)
  then show ?case by (simp add: st Let_def)
qed

lemma writeImages_urls:
  "map fst (scheduled (snd (writeImages L postDir urls st))) =
   map fst (scheduled (snd st)) @ urls"
proof (induction urls arbitrary: st)
  case Nil
  then show ?case by simp
next
  case (Cons u urls)
  obtain d effs where st: "st = (d, effs)" by (cases st)
  show ?case
    by (simp add: st Let_def Cons.IH scheduled_append writeImageFile_def)
qed

lemma writePost_staggered: "staggered st \<Longrightarrow> staggered (writePost L args st p)"
proof -
  assume s: "staggered st"
  have "staggered (fst st, snd st @ [CreateDir (getPostDir L args p),
           writeMarkdownFile L args p (getPostDir L args p)])"
    using s by (simp add: staggered_def scheduled_append writeMarkdownFile_def Let_def)
  then show ?thesis
    by (auto simp: writePost_def Let_def writeImages_staggered split: option.splits)
qed

lemma writePost_urls:
  "map fst (scheduled (snd (writePost L args st p))) =
   map fst (scheduled (snd st)) @ (if saveimages args then urlsOf p else [])"
  by (simp add: writePost_def Let_def writeImages_urls scheduled_append writeMarkdownFile_def
      urlsOf_def split: option.splits)

lemma foldl_writePost_staggered:
  "staggered st \<Longrightarrow> staggered (foldl (writePost L args) st posts)"
  by (induction posts arbitrary: st) (simp_all add: writePost_staggered)

lemma foldl_writePost_urls:
  "map fst (scheduled (snd (foldl (writePost L args) st posts))) =
   map fst (scheduled (snd st)) @
   (if saveimages args then concat (map urlsOf posts) else [])"
  by (induction posts arbitrary: st) (simp_all add: writePost_urls)

text \<open>
  C9. With image saving on, the images requested over the whole run are the image URLs
  of the posts, post after post in processing order, and the request at position \<open>n\<close>
  counted from 0 over the whole run (the \<open>n+1\<close>-th request) has delay \<open>25 * n\<close>: the
  counter starts at 0, grows by 25 with every request and is not reset between posts.
\<close>

theorem image_requests_staggered:
  "saveimages args \<longrightarrow>
     map fst (scheduled (writeFiles L args posts)) = concat (map urlsOf posts) \<and>
     map snd (scheduled (writeFiles L args posts)) =
       map (\<lambda>n. 25 * n) [0..<length (concat (map urlsOf posts))] \<and>
     (\<forall>n. 1 \<le> n \<and> n \<le> length (scheduled (writeFiles L args posts)) \<longrightarrow>
          snd (scheduled (writeFiles L args posts) ! (n - 1)) = 25 * (n - 1))"
proof
  assume on: "saveimages args"
  let ?ds = "scheduled (writeFiles L args posts)"
  have "staggered (0, [])" by (simp add: staggered_def)
  then have "staggered (foldl (writePost L args) (0, []) posts)"
    by (rule foldl_writePost_staggered)
  then have d: "map snd ?ds = map (\<lambda>n. 25 * n) [0..<length ?ds]"
    by (simp add: staggered_def writeFiles_def)
  have u: "map fst ?ds = concat (map urlsOf posts)"
    using on foldl_writePost_urls[of L args "(0, [])" posts] by (simp add: writeFiles_def)
  have len: "length ?ds = length (concat (map urlsOf posts))"
    using u by (metis length_map)
  have nth: "snd (?ds ! (n - 1)) = 25 * (n - 1)" if "1 \<le> n \<and> n \<le> length ?ds" for n
  proof -
    have lt: "n - 1 < length ?ds" using that by linarith
    then have "snd (?ds ! (n - 1)) = map snd ?ds ! (n - 1)" by simp
    also have "\<dots> = map (\<lambda>n. 25 * n) [0..<length ?ds] ! (n - 1)" by (simp only: d)
    also have "\<dots> = 25 * (n - 1)" using lt by simp
    finally show ?thesis .
  qed
  show "map fst ?ds = concat (map urlsOf posts) \<and>
     map snd ?ds = map (\<lambda>n. 25 * n) [0..<length (concat (map urlsOf posts))] \<and>
     (\<forall>n. 1 \<le> n \<and> n \<le> length ?ds \<longrightarrow> snd (?ds ! (n - 1)) = 25 * (n - 1))"
    using u d len nth by simp
qed


section \<open>The first rewrite of the markup conversion\<close>

lemma lineBreak_None:
  "c \<noteq> CHR 0x0A \<Longrightarrow> c \<noteq> CHR 0x0D \<Longrightarrow> lineBreak (c # cs) = None"
  by (simp add: lineBreak_def startsWith_def)

lemma doubleBreak_None:
  "c \<noteq> CHR 0x0A \<Longrightarrow> c \<noteq> CHR 0x0D \<Longrightarrow> doubleBreak (c # cs) = None"
  by (simp add: doubleBreak_def lineBreak_None)

lemma doubleBreak_two_feeds: "doubleBreak (CHR 0x0A # CHR 0x0A # b) = Some b"
  by (simp add: doubleBreak_def lineBreak_def startsWith_def)

text \<open>A text without a line feed and a carriage return is kept as it is.\<close>

lemma replaceDoubleBreaks_one_line:
  "CHR 0x0A \<notin> set s \<Longrightarrow> CHR 0x0D \<notin> set s \<Longrightarrow> replaceDoubleBreaks s = s"
  by (induction s) (auto simp: doubleBreak_None)

text \<open>
  Two texts with a blank line between them: the two line feeds become the empty \<open>div\<close>
  between two line feeds, and the rewrite goes on in the second text.
\<close>

lemma replaceDoubleBreaks_blank_line:
  "CHR 0x0A \<notin> set a \<Longrightarrow> CHR 0x0D \<notin> set a \<Longrightarrow>
   replaceDoubleBreaks (a @ [CHR 0x0A, CHR 0x0A] @ b) = a @ separator @ replaceDoubleBreaks b"
  by (induction a) (auto simp: doubleBreak_None doubleBreak_two_feeds)

text \<open>What the engine is given is made from the text after that rewrite.\<close>

lemma getPostContent_engine_input:
  "getPostContent L args p =
     unmarkIframes L (tidyListItems L (turndown L (markIframes L
       ((if addcontentimages args then localizeImgSrc L else (\<lambda>s. s))
          (replaceDoubleBreaks (trim L (encoded_body p)))))))"
  by (simp add: getPostContent_def Let_def)


section \<open>The properties on the example\<close>

lemma example_collectImages:
  "collectImages exampleLibs exampleArgs exampleData =
     Inr [coverImage, photoImage, lostImage, scrapedImage]"
  by code_simp

lemma example_collectPosts:
  "collectPosts exampleLibs exampleArgs exampleData (collectAuthors exampleAuthors) =
     Inr [helloPost, secondPost]"
  by code_simp

text \<open>The whole run on the example: one file per post, three image requests.\<close>

lemma example_processData:
  "processData exampleLibs exampleArgs exampleData exampleAuthors =
     Inr [CreateDir ''output/2021'',
          WriteFile ''output/2021/10.md''
            (''---'' @ [CHR 0x0A] @ ''---'' @ [CHR 0x0A, CHR 0x0A] @ ''Hi'' @ [CHR 0x0A]),
          CreateDir ''output/2021/images'',
          WriteImageFile ''https://example.com/files/cover.png''
            ''output/2021/images/cover.png'' 0,
          CreateDir ''output/2021/images'',
          WriteImageFile ''https://example.com/hello-world/pic.jpg''
            ''output/2021/images/pic.jpg'' 25,
          CreateDir ''output/2021'',
          WriteFile ''output/2021/second.md''
            (''---'' @ [CHR 0x0A] @ ''---'' @ [CHR 0x0A, CHR 0x0A] @ [CHR 0x0A]),
          CreateDir ''output/2021/images'',
          WriteImageFile ''https://example.com/files/photo.JPG''
            ''output/2021/images/photo.JPG'' 50]"
  by code_simp

theorem falsy_array_key_pruned_witness:
  "isEmpty (JArr [JNum 0, JBool False, JStr []]) \<and>
   ''tags'' \<notin> set (ownKeys (clean (JObj [(''title'', JStr ''x''),
                                          (''tags'', JArr [JNum 0, JBool False, JStr []])]))) \<and>
   clean (JObj [(''title'', JStr ''x''), (''tags'', JArr [JNum 0, JBool False, JStr []])]) =
     JObj [(''title'', JStr ''x'')] \<and>
   fm_tags (frontmatter helloPost) = [[]] \<and>
   ''tags'' \<notin> set (ownKeys (clean (frontmatterObject (frontmatter helloPost)))) \<and>
   ownKeys (clean (frontmatterObject (frontmatter helloPost))) =
     [''slug'', ''title'', ''author'', ''date'']"
proof -
  let ?xs = "[JNum 0, JBool False, JStr []]"
  let ?kvs = "[(''title'', JStr ''x''), (''tags'', JArr ?xs)]"
  have h1: "\<forall>v \<in> set ?xs. \<not> truthy v" by simp
  have h2: "distinct (keys ?kvs)" by (simp add: keys_def)
  have h3: "(''tags'', JArr ?xs) \<in> set ?kvs" by simp
  have h4: "fm_tags (frontmatter helloPost) = [[]]" by (simp add: helloPost_def)
  note T = falsy_array_key_pruned[where xs = ?xs and kvs = ?kvs and key = "''tags''"
      and p = helloPost and L = exampleLibs and args = exampleArgs and dir = "''output/2021''"]
  have c1: "isEmpty (JArr ?xs)" using T h1 by blast
  have c2: "''tags'' \<notin> set (ownKeys (clean (JObj ?kvs)))" using T h1 h2 h3 by blast
  have "fm_tags (frontmatter helloPost) \<noteq> [] \<and>
        (\<forall>t \<in> set (fm_tags (frontmatter helloPost)). t = [])"
    by (simp add: h4)
  with T have c3: "''tags'' \<notin> set (ownKeys (clean (frontmatterObject (frontmatter helloPost))))"
    by blast
  have e1: "clean (JObj ?kvs) = JObj [(''title'', JStr ''x'')]" by code_simp
  have e2: "ownKeys (clean (frontmatterObject (frontmatter helloPost))) =
              [''slug'', ''title'', ''author'', ''date'']" by code_simp
  show ?thesis using c1 c2 c3 e1 e2 h4 by blast
qed

text \<open>The linker on the example, and on an image that makes it throw.\<close>

lemma example_mergeImagesIntoPosts:
  "mergeImagesIntoPosts [coverImage, photoImage, lostImage, scrapedImage]
     [helloPost, secondPost] =
   Inr (linkedPosts [''https://example.com/files/cover.png'',
                     ''https://example.com/hello-world/pic.jpg''])"
  by code_simp

lemma example_inherited_name:
  "mergeImagesIntoPosts [coverImage, strayImage, photoImage] [helloPost, secondPost] =
   Inl TypeError"
  by code_simp

theorem scraped_images_never_cover_witness:
  "image_id scrapedImage = IdNum (- 1) \<and>
   mergeImage (postsLookup [helloPost, secondPost]) [helloPost, secondPost] scrapedImage =
     Inr [linkImage scrapedImage helloPost, secondPost] \<and>
   urlsOf (linkImage scrapedImage helloPost) = [''https://example.com/hello-world/pic.jpg''] \<and>
   map (\<lambda>p. fm_images (frontmatter p)) [linkImage scrapedImage helloPost, secondPost] =
     map (\<lambda>p. fm_images (frontmatter p)) [helloPost, secondPost] \<and>
   map frontmatter [linkImage scrapedImage helloPost, secondPost] =
     map frontmatter [helloPost, secondPost] \<and>
   mergeImagesIntoPosts [coverImage, photoImage, lostImage, scrapedImage]
     [helloPost, secondPost] =
     Inr (linkedPosts [''https://example.com/files/cover.png'',
                       ''https://example.com/hello-world/pic.jpg'']) \<and>
   mergeImagesIntoPosts [coverImage, photoImage, lostImage] [helloPost, secondPost] =
     Inr (linkedPosts [''https://example.com/files/cover.png'']) \<and>
   map frontmatter (linkedPosts [''https://example.com/files/cover.png'',
                                 ''https://example.com/hello-world/pic.jpg'']) =
     map frontmatter (linkedPosts [''https://example.com/files/cover.png'']) \<and>
   frontmatter (linkImage coverImage helloPost) \<noteq> frontmatter helloPost \<and>
   image_id coverImage = IdStr ''20'' \<and>
   addContentImages exampleLibs exampleData [coverImage, photoImage, lostImage] =
     Inr [coverImage, photoImage, lostImage, scrapedImage]"
proof -
  let ?posts = "[helloPost, secondPost]"
  let ?images = "[coverImage, photoImage, lostImage, scrapedImage]"
  let ?step = "[linkImage scrapedImage helloPost, secondPost]"
  let ?all = "linkedPosts [''https://example.com/files/cover.png'',
                           ''https://example.com/hello-world/pic.jpg'']"
  let ?kept = "linkedPosts [''https://example.com/files/cover.png'']"
  have h1: "image_id scrapedImage = IdNum (- 1)" by (simp add: scrapedImage_def)
  have h2: "postId scrapedImage \<noteq> ''frontmatter''" by (simp add: scrapedImage_def)
  have s: "mergeImage (postsLookup ?posts) ?posts scrapedImage = Inr ?step" by code_simp
  have run: "mergeImagesIntoPosts ?images ?posts = Inr ?all" by code_simp
  have run': "mergeImagesIntoPosts [coverImage, photoImage, lostImage] ?posts = Inr ?kept"
    by code_simp
  note T1 = scraped_images_never_cover[where img = scrapedImage
      and lookup = "postsLookup ?posts" and ps = ?posts and ps' = ?step
      and images = ?images and posts = ?posts and result = ?all
      and p = helloPost and L = exampleLibs and data = exampleData
      and given = "[coverImage, photoImage, lostImage]" and imgs = ?images and x = scrapedImage]
  have c1: "map (\<lambda>p. fm_images (frontmatter p)) ?step =
            map (\<lambda>p. fm_images (frontmatter p)) ?posts"
    using T1[THEN conjunct1] h1 s by blast
  have c1b: "map frontmatter ?step = map frontmatter ?posts"
    using T1[THEN conjunct2, THEN conjunct1] h1 h2 s by blast
  have f: "filter (\<lambda>x. image_id x \<noteq> IdNum (- 1)) ?images =
           [coverImage, photoImage, lostImage]"
    by (simp add: coverImage_def photoImage_def lostImage_def scrapedImage_def)
  have h3: "\<forall>x \<in> set ?images. postId x \<noteq> ''frontmatter''"
    by (simp add: coverImage_def photoImage_def lostImage_def scrapedImage_def)
  from T1[THEN conjunct2, THEN conjunct2, THEN conjunct1, THEN mp, OF run]
  obtain result' where r: "mergeImagesIntoPosts [coverImage, photoImage, lostImage] ?posts =
      Inr result'"
    and fr: "(\<forall>x \<in> set ?images. postId x \<noteq> ''frontmatter'') \<longrightarrow>
             map frontmatter ?all = map frontmatter result'"
    unfolding f by blast
  have "result' = ?kept" using r run' by simp
  with fr h3 have c2: "map frontmatter ?all = map frontmatter ?kept" by blast
  have h4: "frontmatter (linkImage coverImage helloPost) \<noteq> frontmatter helloPost"
    by code_simp
  note T2 = scraped_images_never_cover[where img = coverImage and p = helloPost]
  have "\<exists>s. image_id coverImage = IdStr s"
    using T2[THEN conjunct2, THEN conjunct2, THEN conjunct2, THEN conjunct1] h4 by blast
  then have c3: "image_id coverImage = IdStr ''20''" by (simp add: coverImage_def)
  have h5: "addContentImages exampleLibs exampleData [coverImage, photoImage, lostImage] =
            Inr ?images" by code_simp
  have h6: "scrapedImage \<in> set ?images \<and> scrapedImage \<notin> set [coverImage, photoImage, lostImage]"
    by (simp add: coverImage_def photoImage_def lostImage_def scrapedImage_def)
  have c4: "image_id scrapedImage = IdNum (- 1)"
    using T1[THEN conjunct2, THEN conjunct2, THEN conjunct2, THEN conjunct2] h5 h6 by blast
  have e1: "urlsOf (linkImage scrapedImage helloPost) =
            [''https://example.com/hello-world/pic.jpg'']"
    by code_simp
  show ?thesis using c4 s e1 c1 c1b run run' c2 h4 c3 h5 by blast
qed

theorem linker_assigns_owner_witness:
  "map (\<lambda>p. meta_id (meta p)) [helloPost, secondPost] = [''10'', ''11''] \<and>
   map postId [coverImage, photoImage, lostImage, scrapedImage] =
     [''11'', ''11'', ''99'', ''10''] \<and>
   ''11'' \<notin> set objectPrototypeNames \<and> ''99'' \<notin> set objectPrototypeNames \<and>
   ''10'' \<notin> set objectPrototypeNames \<and>
   owner [helloPost, secondPost] coverImage = Some 0 \<and>
   idEq (thumbnailImageId (meta ([helloPost, secondPost] ! 0))) (image_id coverImage) \<and>
   meta_id (meta ([helloPost, secondPost] ! 1)) = postId coverImage \<and>
   owner [helloPost, secondPost] photoImage = Some 1 \<and>
   owner [helloPost, secondPost] lostImage = None \<and>
   mergeImage (postsLookup [helloPost, secondPost]) [helloPost, secondPost] lostImage =
     Inr [helloPost, secondPost] \<and>
   mergeImage (postsLookup [helloPost, secondPost]) [helloPost, secondPost] photoImage =
     Inr [helloPost, linkImage photoImage secondPost] \<and>
   mergeImagesIntoPosts [lostImage] [helloPost, secondPost] = Inr [helloPost, secondPost] \<and>
   mergeImagesIntoPosts [coverImage, photoImage, lostImage, scrapedImage]
     [helloPost, secondPost] =
     Inr (linkedPosts [''https://example.com/files/cover.png'',
                       ''https://example.com/hello-world/pic.jpg'']) \<and>
   urlsOf (linkedPosts [''https://example.com/files/cover.png'',
                        ''https://example.com/hello-world/pic.jpg''] ! 0) =
     [''https://example.com/files/cover.png'', ''https://example.com/hello-world/pic.jpg''] \<and>
   urlsOf (linkedPosts [''https://example.com/files/cover.png'',
                        ''https://example.com/hello-world/pic.jpg''] ! 1) =
     [''https://example.com/files/photo.JPG'']"
proof -
  let ?posts = "[helloPost, secondPost]"
  let ?images = "[coverImage, photoImage, lostImage, scrapedImage]"
  let ?all = "linkedPosts [''https://example.com/files/cover.png'',
                           ''https://example.com/hello-world/pic.jpg'']"
  have hp: "\<forall>p \<in> set ?posts. meta_id (meta p) \<noteq> ''__proto__''"
    by (simp add: helloPost_def secondPost_def)
  have hi: "\<forall>x \<in> set ?images. postId x \<notin> set objectPrototypeNames"
    by (simp add: coverImage_def photoImage_def lostImage_def scrapedImage_def
        objectPrototypeNames_def)
  have e1: "map (\<lambda>p. meta_id (meta p)) ?posts = [''10'', ''11'']"
    by (simp add: helloPost_def secondPost_def)
  have e2: "map postId ?images = [''11'', ''11'', ''99'', ''10'']"
    by (simp add: coverImage_def photoImage_def lostImage_def scrapedImage_def)
  have e3: "''11'' \<notin> set objectPrototypeNames" "''99'' \<notin> set objectPrototypeNames"
    "''10'' \<notin> set objectPrototypeNames"
    by (simp_all add: objectPrototypeNames_def)
  have hl: "\<forall>x \<in> set [lostImage]. postId x \<notin> set objectPrototypeNames"
    using hi by simp
  have o1: "owner ?posts coverImage = Some 0" by code_simp
  have o2: "owner ?posts photoImage = Some 1" by code_simp
  have o3: "owner ?posts lostImage = None" by code_simp
  have o4: "owner ?posts scrapedImage = Some 0" by code_simp
  note T0 = linker_assigns_owner[where posts = ?posts and img = coverImage and i = 0
      and images = ?images and p = helloPost and ps = ?posts]
  note T1 = linker_assigns_owner[where posts = ?posts and img = photoImage and i = 1
      and images = ?images and p = helloPost and ps = ?posts]
  note T2 = linker_assigns_owner[where posts = ?posts and img = lostImage and i = 0
      and images = "[lostImage]" and p = helloPost and ps = ?posts]
  have c1: "idEq (thumbnailImageId (meta (?posts ! 0))) (image_id coverImage)"
    by (simp add: helloPost_def coverImage_def)
  have c2: "meta_id (meta (?posts ! 1)) = postId coverImage"
    by (simp add: secondPost_def coverImage_def)
  have pl: "postId lostImage \<notin> set objectPrototypeNames"
    and pp: "postId photoImage \<notin> set objectPrototypeNames" using hi by simp_all
  have s3: "mergeImage (postsLookup ?posts) ?posts lostImage = Inr ?posts"
    using T2[THEN conjunct2, THEN conjunct2, THEN conjunct1] hp pl o3 by simp
  have s2: "mergeImage (postsLookup ?posts) ?posts photoImage =
            Inr [helloPost, linkImage photoImage secondPost]"
    using T1[THEN conjunct2, THEN conjunct2, THEN conjunct1] hp pp o2 by simp
  have c3: "mergeImagesIntoPosts [lostImage] ?posts = Inr ?posts"
    using T2[THEN conjunct2, THEN conjunct2, THEN conjunct2, THEN conjunct1] hp hl o3
    by simp
  have run: "mergeImagesIntoPosts ?images ?posts = Inr ?all" by code_simp
  have f0: "map url (filter (\<lambda>x. owner ?posts x = Some 0) ?images) =
            [''https://example.com/files/cover.png'', ''https://example.com/hello-world/pic.jpg'']"
    by (simp add: o1 o2 o3 o4) (simp add: coverImage_def scrapedImage_def)
  have f1: "map url (filter (\<lambda>x. owner ?posts x = Some 1) ?images) =
            [''https://example.com/files/photo.JPG'']"
    by (simp add: o1 o2 o3 o4) (simp add: photoImage_def)
  have u0: "urlsOf (?posts ! 0) = []" by (simp add: urlsOf_def helloPost_def)
  have u1: "urlsOf (?posts ! 1) = []" by (simp add: urlsOf_def secondPost_def)
  have l0: "0 < length ?posts" and l1: "1 < length ?posts" by simp_all
  from T0[THEN conjunct2, THEN conjunct2, THEN conjunct2, THEN conjunct2, THEN conjunct2]
    hp hi l0
  obtain r0 where "mergeImagesIntoPosts ?images ?posts = Inr r0"
    and "urlsOf (r0 ! 0) = urlsOf (?posts ! 0) @
           map url (filter (\<lambda>x. owner ?posts x = Some 0) ?images)"
    by blast
  then have c4: "urlsOf (?all ! 0) =
     [''https://example.com/files/cover.png'', ''https://example.com/hello-world/pic.jpg'']"
    using run unfolding f0 u0 by simp
  from T1[THEN conjunct2, THEN conjunct2, THEN conjunct2, THEN conjunct2, THEN conjunct2]
    hp hi l1
  obtain r1 where "mergeImagesIntoPosts ?images ?posts = Inr r1"
    and "urlsOf (r1 ! 1) = urlsOf (?posts ! 1) @
           map url (filter (\<lambda>x. owner ?posts x = Some 1) ?images)"
    by blast
  then have c5: "urlsOf (?all ! 1) = [''https://example.com/files/photo.JPG'']"
    using run unfolding f1 u1 by simp
  show ?thesis using e1 e2 e3 o1 c1 c2 o2 o3 s3 s2 c3 run c4 c5 by blast
qed

theorem thumbnail_is_images_basename_witness:
  "idEq (thumbnailImageId (meta ([helloPost, secondPost] ! 0))) (image_id coverImage) \<and>
   mergeImage (postsLookup [helloPost, secondPost]) [helloPost, secondPost] coverImage =
     Inr [linkImage coverImage helloPost, secondPost] \<and>
   map_of (fm_images (frontmatter ([linkImage coverImage helloPost, secondPost] ! 0)))
     ''thumbnail'' = Some (JStr ''./images/cover.png'') \<and>
   mergeImagesIntoPosts ([photoImage] @ coverImage # [lostImage, scrapedImage])
     [helloPost, secondPost] =
     Inr (linkedPosts [''https://example.com/files/cover.png'',
                       ''https://example.com/hello-world/pic.jpg'']) \<and>
   map_of (fm_images (frontmatter
     (linkedPosts [''https://example.com/files/cover.png'',
                   ''https://example.com/hello-world/pic.jpg''] ! 0)))
     ''thumbnail'' = Some (JStr ''./images/cover.png'')"
proof -
  let ?posts = "[helloPost, secondPost]"
  let ?all = "linkedPosts [''https://example.com/files/cover.png'',
                           ''https://example.com/hello-world/pic.jpg'']"
  note T = thumbnail_is_images_basename[where i = 0 and ps = ?posts and img = coverImage
      and lookup = "postsLookup ?posts" and posts = ?posts
      and rest = "[lostImage, scrapedImage]" and before = "[photoImage]" and result = ?all]
  have h1: "0 < length ?posts" by simp
  have h2: "idEq (thumbnailImageId (meta (?posts ! 0))) (image_id coverImage)"
    by (simp add: helloPost_def coverImage_def)
  have h3: "\<forall>j<0. \<not> idEq (thumbnailImageId (meta (?posts ! j))) (image_id coverImage)"
    by simp
  have h4: "\<forall>r \<in> set [lostImage, scrapedImage]. image_id r \<noteq> image_id coverImage"
    by (simp add: lostImage_def scrapedImage_def coverImage_def)
  have h5: "mergeImagesIntoPosts ([photoImage] @ coverImage # [lostImage, scrapedImage]) ?posts =
            Inr ?all" by code_simp
  have s: "mergeImage (postsLookup ?posts) ?posts coverImage =
           Inr [linkImage coverImage helloPost, secondPost]" by code_simp
  have e: "''./images/'' @ lastSegment (url coverImage) = ''./images/cover.png''"
    by code_simp
  from T[THEN conjunct1] h1 h2 h3
  obtain ps' where "mergeImage (postsLookup ?posts) ?posts coverImage = Inr ps'"
    and "map_of (fm_images (frontmatter (ps' ! 0))) ''thumbnail'' =
         Some (JStr (''./images/'' @ lastSegment (url coverImage)))"
    by blast
  then have c1: "map_of (fm_images (frontmatter ([linkImage coverImage helloPost, secondPost] ! 0)))
     ''thumbnail'' = Some (JStr ''./images/cover.png'')"
    using s unfolding e by simp
  have c2: "map_of (fm_images (frontmatter (?all ! 0))) ''thumbnail'' =
            Some (JStr ''./images/cover.png'')"
    using T[THEN conjunct2] h1 h2 h3 h4 h5 unfolding e by blast
  show ?thesis using h2 s c1 h5 c2 by blast
qed

theorem getPostDir_by_mode_witness:
  "fm_date (frontmatter helloPost) = Some ''2021-06-15'' \<and>
   getPostDir exampleLibs exampleArgs helloPost = ''output/2021'' \<and>
   getPostDir exampleLibs exampleArgs secondPost = ''output/2021'' \<and>
   getPostDir exampleLibs (exampleArgs\<lparr>folders := ''yearmonth''\<rparr>) helloPost = ''output/2021/06'' \<and>
   getPostDir exampleLibs (exampleArgs\<lparr>folders := ''path''\<rparr>) secondPost =
     ''output/drafts/second'' \<and>
   getPostDir exampleLibs (exampleArgs\<lparr>folders := ''path''\<rparr>) helloPost =
     ''output/hello-world'' \<and>
   getPostDir exampleLibs (exampleArgs\<lparr>folders := ''post''\<rparr>) helloPost = ''output/10'' \<and>
   getPostDir exampleLibs (exampleArgs\<lparr>folders := ''post'', prefixdate := True\<rparr>) helloPost =
     ''output/2021-06-15-10'' \<and>
   getPostDir exampleLibs (exampleArgs\<lparr>folders := ''flat''\<rparr>) helloPost = ''output''"
proof -
  have d: "fm_date (frontmatter helloPost) = Some ''2021-06-15''"
    by (simp add: helloPost_def)
  have d2: "fm_date (frontmatter helloPost) = fm_date (frontmatter secondPost)"
    by (simp add: helloPost_def secondPost_def)
  note Y = getPostDir_by_mode[where L = exampleLibs and args = exampleArgs
      and p = helloPost and q = secondPost]
  have y: "folders exampleArgs = ''year''" by (simp add: exampleArgs_def)
  have c1: "getPostDir exampleLibs exampleArgs helloPost =
            path_join exampleLibs [output_arg exampleArgs,
              toFormat exampleLibs (fm_date (frontmatter helloPost)) ''yyyy'']"
    using Y y by blast
  have e1: "path_join exampleLibs [output_arg exampleArgs,
              toFormat exampleLibs (fm_date (frontmatter helloPost)) ''yyyy''] = ''output/2021''"
    by code_simp
  have c2: "getPostDir exampleLibs exampleArgs helloPost =
            getPostDir exampleLibs exampleArgs secondPost"
    using Y y d2 by blast
  note M = getPostDir_by_mode[where L = exampleLibs
      and args = "exampleArgs\<lparr>folders := ''yearmonth''\<rparr>" and p = helloPost and q = secondPost]
  have c3: "getPostDir exampleLibs (exampleArgs\<lparr>folders := ''yearmonth''\<rparr>) helloPost =
            ''output/2021/06''"
    using M[THEN conjunct2, THEN conjunct2, THEN conjunct1]
    by (simp add: exampleArgs_def exampleLibs_def helloPost_def formatIso_def joinSegments_def)
  note D = getPostDir_by_mode[where L = exampleLibs
      and args = "exampleArgs\<lparr>folders := ''path''\<rparr>" and p = secondPost and q = secondPost]
  have c4: "getPostDir exampleLibs (exampleArgs\<lparr>folders := ''path''\<rparr>) secondPost =
            ''output/drafts/second''"
    using D[THEN conjunct2, THEN conjunct2, THEN conjunct2, THEN conjunct1]
    by (simp add: exampleArgs_def exampleLibs_def secondPost_def joinSegments_def)
  note P = getPostDir_by_mode[where L = exampleLibs
      and args = "exampleArgs\<lparr>folders := ''path''\<rparr>" and p = helloPost and q = secondPost]
  have c5: "getPostDir exampleLibs (exampleArgs\<lparr>folders := ''path''\<rparr>) helloPost =
            ''output/hello-world''"
    using P[THEN conjunct2, THEN conjunct2, THEN conjunct2, THEN conjunct2, THEN conjunct1]
    by (simp add: exampleArgs_def exampleLibs_def helloPost_def joinSegments_def)
  note S = getPostDir_by_mode[where L = exampleLibs
      and args = "exampleArgs\<lparr>folders := ''post''\<rparr>" and p = helloPost and q = secondPost]
  have c6: "getPostDir exampleLibs (exampleArgs\<lparr>folders := ''post''\<rparr>) helloPost = ''output/10''"
    using S[THEN conjunct2, THEN conjunct2, THEN conjunct2, THEN conjunct2, THEN conjunct2,
            THEN conjunct1]
    by (simp add: exampleArgs_def exampleLibs_def helloPost_def joinSegments_def)
  note R = getPostDir_by_mode[where L = exampleLibs
      and args = "exampleArgs\<lparr>folders := ''post'', prefixdate := True\<rparr>"
      and p = helloPost and q = secondPost]
  have c7: "getPostDir exampleLibs (exampleArgs\<lparr>folders := ''post'', prefixdate := True\<rparr>)
              helloPost = ''output/2021-06-15-10''"
    using R[THEN conjunct2, THEN conjunct2, THEN conjunct2, THEN conjunct2, THEN conjunct2,
            THEN conjunct2, THEN conjunct1]
    by (simp add: exampleArgs_def exampleLibs_def helloPost_def formatIso_def joinSegments_def)
  note F = getPostDir_by_mode[where L = exampleLibs
      and args = "exampleArgs\<lparr>folders := ''flat''\<rparr>" and p = helloPost and q = secondPost]
  have c8: "getPostDir exampleLibs (exampleArgs\<lparr>folders := ''flat''\<rparr>) helloPost = ''output''"
    using F[THEN conjunct2, THEN conjunct2, THEN conjunct2, THEN conjunct2, THEN conjunct2,
            THEN conjunct2, THEN conjunct2]
    by (simp add: exampleArgs_def)
  show ?thesis using d c1 c2 c3 c4 c5 c6 c7 c8 unfolding e1 by simp
qed

theorem getPostFilename_by_mode_witness:
  "getPostFilename exampleLibs (exampleArgs\<lparr>folders := ''post''\<rparr>) helloPost = ''index.md'' \<and>
   getPostFilename exampleLibs (exampleArgs\<lparr>folders := ''path'', namedfiles := True\<rparr>)
     secondPost = ''second.md'' \<and>
   getPostFilename exampleLibs exampleArgs secondPost = ''second.md'' \<and>
   getPostFilename exampleLibs (exampleArgs\<lparr>folders := ''yearmonth'', prefixdate := True\<rparr>)
     secondPost = ''2021-06-15-second.md'' \<and>
   post_name helloItem = [] \<and>
   collectPost exampleLibs (exampleArgs\<lparr>folders := ''post''\<rparr>)
     (collectAuthors exampleAuthors) helloItem = Inr helloPost \<and>
   slug (meta helloPost) = post_id helloItem \<and>
   slug (meta helloPost) = ''10''"
proof -
  note A = getPostFilename_by_mode[where L = exampleLibs
      and args = "exampleArgs\<lparr>folders := ''post''\<rparr>" and p = helloPost
      and authors = "collectAuthors exampleAuthors" and it = helloItem]
  have h: "collectPost exampleLibs (exampleArgs\<lparr>folders := ''post''\<rparr>)
             (collectAuthors exampleAuthors) helloItem = Inr helloPost"
    by code_simp
  have n: "post_name helloItem = []" by (simp add: helloItem_def)
  have f: "folders (exampleArgs\<lparr>folders := ''post''\<rparr>) = ''post''" by simp
  have nf: "\<not> namedfiles (exampleArgs\<lparr>folders := ''post''\<rparr>)" by (simp add: exampleArgs_def)
  have c1: "slug (meta helloPost) = post_id helloItem \<and>
            getPostFilename exampleLibs (exampleArgs\<lparr>folders := ''post''\<rparr>) helloPost = ''index.md''"
    using A[THEN conjunct2, THEN conjunct2, THEN conjunct2] h n f nf by blast
  have c2: "slug (meta helloPost) = ''10''"
    using c1 by (simp add: helloItem_def)
  note B = getPostFilename_by_mode[where L = exampleLibs
      and args = "exampleArgs\<lparr>folders := ''path'', namedfiles := True\<rparr>" and p = secondPost
      and authors = "collectAuthors exampleAuthors" and it = secondItem]
  have c3: "getPostFilename exampleLibs (exampleArgs\<lparr>folders := ''path'', namedfiles := True\<rparr>)
              secondPost = ''second.md''"
    using B[THEN conjunct1] by (simp add: secondPost_def)
  note C = getPostFilename_by_mode[where L = exampleLibs and args = exampleArgs
      and p = secondPost and authors = "collectAuthors exampleAuthors" and it = secondItem]
  have c4: "getPostFilename exampleLibs exampleArgs secondPost = ''second.md''"
    using C[THEN conjunct2, THEN conjunct1] by (simp add: exampleArgs_def secondPost_def)
  note D = getPostFilename_by_mode[where L = exampleLibs
      and args = "exampleArgs\<lparr>folders := ''yearmonth'', prefixdate := True\<rparr>"
      and p = secondPost and authors = "collectAuthors exampleAuthors" and it = secondItem]
  have c5: "getPostFilename exampleLibs (exampleArgs\<lparr>folders := ''yearmonth'', prefixdate := True\<rparr>)
              secondPost = ''2021-06-15-second.md''"
    using D[THEN conjunct2, THEN conjunct1]
    by (simp add: exampleArgs_def exampleLibs_def secondPost_def formatIso_def)
  show ?thesis using c1 c2 c3 c4 c5 h n by simp
qed

theorem unknown_author_fails_witness:
  "''ghost'' \<notin> author_id ` set (collectAuthors exampleAuthors) \<and>
   getAuthorName (collectAuthors exampleAuthors) ''ghost'' = Inl TypeError \<and>
   getAuthorName (collectAuthors exampleAuthors) ''admin'' = Inr ''Ada'' \<and>
   collectPost exampleLibs exampleArgs (collectAuthors exampleAuthors)
     (helloItem\<lparr>creator := ''ghost''\<rparr>) = Inl TypeError \<and>
   fm_author (frontmatter helloPost) = ''Ada'' \<and>
   collectPosts exampleLibs exampleArgs [secondItem, helloItem\<lparr>creator := ''ghost''\<rparr>]
     (collectAuthors exampleAuthors) = Inl TypeError \<and>
   processData exampleLibs exampleArgs [secondItem, helloItem\<lparr>creator := ''ghost''\<rparr>]
     exampleAuthors = Inl TypeError"
proof -
  let ?authors = "collectAuthors exampleAuthors"
  let ?ghost = "helloItem\<lparr>creator := ''ghost''\<rparr>"
  let ?ada = "\<lparr>author_id = ''admin'', name = ''Ada''\<rparr>"
  have au: "?authors = [] @ ?ada # []"
    by (simp add: collectAuthors_def exampleAuthors_def)
  have h1: "''ghost'' \<notin> author_id ` set ?authors"
    by (simp add: collectAuthors_def exampleAuthors_def)
  note T = unknown_author_fails[where ident = "''ghost''" and authors = ?authors
      and it = ?ghost and L = exampleLibs and args = exampleArgs
      and data = "[secondItem, ?ghost]" and channel_authors = exampleAuthors]
  have c1: "getAuthorName ?authors ''ghost'' = Inl TypeError"
    using T h1 by blast
  note K = unknown_author_fails[where ident = "''admin''" and authors = ?authors
      and pre = "[]" and a = ?ada and rest = "[]" and it = helloItem and p = helloPost
      and L = exampleLibs and args = exampleArgs]
  have c2: "getAuthorName ?authors ''admin'' = Inr ''Ada''"
    using K[THEN conjunct2, THEN conjunct1] au by simp
  have h3: "creator ?ghost \<notin> author_id ` set ?authors"
    using h1 by simp
  have c3: "collectPost exampleLibs exampleArgs ?authors ?ghost = Inl TypeError"
    using T h3 by blast
  have h4: "collectPost exampleLibs exampleArgs ?authors helloItem = Inr helloPost"
    by code_simp
  have "\<exists>b \<in> set ?authors. author_id b = creator helloItem \<and>
          fm_author (frontmatter helloPost) = name b"
    using K[THEN conjunct2, THEN conjunct2, THEN conjunct2, THEN conjunct1] h4 by blast
  then have c4: "fm_author (frontmatter helloPost) = ''Ada''"
    by (simp add: collectAuthors_def exampleAuthors_def)
  have h5: "?ghost \<in> set [secondItem, ?ghost] \<and> post_type ?ghost = ''post'' \<and>
            passesFilter exampleLibs exampleArgs ?ghost \<and>
            creator ?ghost \<notin> author_login ` set exampleAuthors"
    by (simp add: helloItem_def passesFilter_def exampleArgs_def exampleAuthors_def)
  have c5: "collectPosts exampleLibs exampleArgs [secondItem, ?ghost] ?authors = Inl TypeError \<and>
            processData exampleLibs exampleArgs [secondItem, ?ghost] exampleAuthors = Inl TypeError"
    using T[THEN conjunct2, THEN conjunct2, THEN conjunct2, THEN conjunct2] h5 by blast
  show ?thesis using h1 c1 c2 c3 c4 c5 by blast
qed

theorem image_requests_staggered_witness:
  "saveimages exampleArgs \<and>
   map urlsOf (linkedPosts [''https://example.com/files/cover.png'',
                            ''https://example.com/hello-world/pic.jpg'']) =
     [[''https://example.com/files/cover.png'', ''https://example.com/hello-world/pic.jpg''],
      [''https://example.com/files/photo.JPG'']] \<and>
   map fst (scheduled (writeFiles exampleLibs exampleArgs
     (linkedPosts [''https://example.com/files/cover.png'',
                   ''https://example.com/hello-world/pic.jpg'']))) =
     [''https://example.com/files/cover.png'', ''https://example.com/hello-world/pic.jpg'',
      ''https://example.com/files/photo.JPG''] \<and>
   map snd (scheduled (writeFiles exampleLibs exampleArgs
     (linkedPosts [''https://example.com/files/cover.png'',
                   ''https://example.com/hello-world/pic.jpg'']))) = [0, 25, 50]"
proof -
  let ?posts = "linkedPosts [''https://example.com/files/cover.png'',
                             ''https://example.com/hello-world/pic.jpg'']"
  have on: "saveimages exampleArgs" by (simp add: exampleArgs_def)
  have u: "map urlsOf ?posts =
     [[''https://example.com/files/cover.png'', ''https://example.com/hello-world/pic.jpg''],
      [''https://example.com/files/photo.JPG'']]"
    by code_simp
  note T = image_requests_staggered[where args = exampleArgs and L = exampleLibs
      and posts = ?posts, THEN mp, OF on]
  have c1: "map fst (scheduled (writeFiles exampleLibs exampleArgs ?posts)) =
     [''https://example.com/files/cover.png'', ''https://example.com/hello-world/pic.jpg'',
      ''https://example.com/files/photo.JPG'']"
    using T[THEN conjunct1] unfolding u by simp
  have c2: "map snd (scheduled (writeFiles exampleLibs exampleArgs ?posts)) = [0, 25, 50]"
    using T[THEN conjunct2, THEN conjunct1] unfolding u by (simp add: upt_rec)
  show ?thesis using on u c1 c2 by blast
qed


end
